theory Spec2Isabelle
  imports Main "HOL-Library.AList"
begin

section \<open>Python values, dictionaries and strings\<close>

text \<open>
  The records of \<^verbatim>\<open>lead_gen.py\<close> are plain Python dictionaries from field names to
  values that come from CSV rows and from decoded JSON. A value is \<^verbatim>\<open>None\<close>, a string, a
  boolean, an integer or a nested dictionary (floats and lists do not occur in the code paths
  modelled here). A dictionary is an association list in insertion order:
  \<^const>\<open>map_of\<close> is \<^verbatim>\<open>d.get(k)\<close>, \<^const>\<open>AList.update\<close> is \<^verbatim>\<open>d[k] = v\<close> (in place when the key
  exists, appended otherwise) and \<^const>\<open>AList.delete\<close> removes a key as \<^verbatim>\<open>d.pop(k)\<close> does.
  A \<^typ>\<open>char\<close> stands for one code point below 256.
\<close>

datatype val = VNone | VStr string | VBool bool | VNum int | VDict "(string \<times> val) list"

type_synonym dict = "(string \<times> val) list"

text \<open>Python truthiness, as used by \<^verbatim>\<open>x or y\<close>, \<^verbatim>\<open>if x\<close> and \<^verbatim>\<open>not x\<close>.\<close>

fun truthy :: "val \<Rightarrow> bool" where
  "truthy VNone = False"
| "truthy (VStr s) = (s \<noteq> [])"
| "truthy (VBool b) = b"
| "truthy (VNum n) = (n \<noteq> 0)"
| "truthy (VDict d) = (d \<noteq> [])"

text \<open>\<^verbatim>\<open>a or b\<close> on values, and \<^verbatim>\<open>d.get(k, '')\<close>.\<close>

definition py_or :: "val \<Rightarrow> val \<Rightarrow> val" where
  "py_or a b = (if truthy a then a else b)"

definition get_or_empty :: "dict \<Rightarrow> string \<Rightarrow> val" where
  "get_or_empty d k = (case map_of d k of None \<Rightarrow> VStr [] | Some v \<Rightarrow> v)"

text \<open>
  \<^verbatim>\<open>str.isspace\<close>, \<^verbatim>\<open>str.isupper\<close> and \<^verbatim>\<open>str.lower\<close> on one code point below 256:
  whitespace is 0x09-0x0D, 0x1C-0x20, 0x85 and 0xA0; the upper-case letters are A-Z,
  0xC0-0xD6 and 0xD8-0xDE, each 32 below its lower-case letter.
\<close>

definition is_space :: "char \<Rightarrow> bool" where
  "is_space c = (let n = (of_char c :: nat) in
     (9 \<le> n \<and> n \<le> 13) \<or> (28 \<le> n \<and> n \<le> 32) \<or> n = 133 \<or> n = 160)"

definition is_upper :: "char \<Rightarrow> bool" where
  "is_upper c = (let n = (of_char c :: nat) in
     (65 \<le> n \<and> n \<le> 90) \<or> (192 \<le> n \<and> n \<le> 214) \<or> (216 \<le> n \<and> n \<le> 222))"

definition lower_char :: "char \<Rightarrow> char" where
  "lower_char c = (if is_upper c then char_of ((of_char c :: nat) + 32) else c)"

definition py_lower :: "string \<Rightarrow> string" where
  "py_lower s = map lower_char s"

definition py_strip :: "string \<Rightarrow> string" where
  "py_strip s = rev (dropWhile is_space (rev (dropWhile is_space s)))"

text \<open>\<^verbatim>\<open>s.replace(",", "")\<close> and the like: every occurrence of one character is removed.\<close>

definition remove_char :: "char \<Rightarrow> string \<Rightarrow> string" where
  "remove_char c s = filter (\<lambda>x. x \<noteq> c) s"

text \<open>\<^verbatim>\<open>s.split("-")[0]\<close>: the text before the first hyphen (all of it when there is none).\<close>

definition before_hyphen :: "string \<Rightarrow> string" where
  "before_hyphen s = takeWhile (\<lambda>x. x \<noteq> CHR ''-'') s"

text \<open>
  \<^verbatim>\<open>int(s)\<close> on a string: surrounding whitespace is dropped, one sign is allowed, and the
  digits may be grouped by single underscores between digits. \<open>None\<close> is \<^verbatim>\<open>ValueError\<close>.
  Python's integers are unbounded (the interpreter's optional limit on the number of digits
  is not modelled).
\<close>

definition is_digit :: "char \<Rightarrow> bool" where
  "is_digit c = (let n = (of_char c :: nat) in 48 \<le> n \<and> n \<le> 57)"

definition digit_val :: "char \<Rightarrow> nat" where
  "digit_val c = (of_char c :: nat) - 48"

fun digits_from :: "nat \<Rightarrow> string \<Rightarrow> nat option" where
  "digits_from acc [] = Some acc"
| "digits_from acc [c] = (if is_digit c then Some (10 * acc + digit_val c) else None)"
| "digits_from acc (c # d # cs) =
     (if is_digit c then digits_from (10 * acc + digit_val c) (d # cs)
      else if c = CHR ''_'' \<and> is_digit d then digits_from (10 * acc + digit_val d) cs
      else None)"

definition py_digits :: "string \<Rightarrow> nat option" where
  "py_digits s = (case s of [] \<Rightarrow> None
     | c # cs \<Rightarrow> if is_digit c then digits_from (digit_val c) cs else None)"

definition py_int :: "string \<Rightarrow> int option" where
  "py_int s = (case py_strip s of [] \<Rightarrow> None
     | c # cs \<Rightarrow>
         if c = CHR ''+'' then map_option int (py_digits cs)
         else if c = CHR ''-'' then map_option (\<lambda>n. - int n) (py_digits cs)
         else map_option int (py_digits (c # cs)))"

text \<open>\<^verbatim>\<open>str(n)\<close> of a natural number: its decimal digits.\<close>

fun str_nat :: "nat \<Rightarrow> string" where
  "str_nat n = (if n < 10 then [char_of (48 + n)]
                else str_nat (n div 10) @ [char_of (48 + n mod 10)])"

declare str_nat.simps [simp del]

definition str_int :: "int \<Rightarrow> string" where
  "str_int i = (if i < 0 then CHR ''-'' # str_nat (nat (- i)) else str_nat (nat i))"

text \<open>
  Two library functions are parameters of the model, since their code is not part of the
  repository: \<open>netloc v\<close> is \<^verbatim>\<open>urlparse(v).netloc\<close> (\<open>None\<close> when the call or the use of its
  result raises), and \<open>dict_str d\<close> is \<^verbatim>\<open>str(d)\<close> of a dictionary.
\<close>

record runtime =
  netloc :: "val \<Rightarrow> string option"
  dict_str :: "dict \<Rightarrow> string"

text \<open>
  The instance used to run the examples of this theory; none of them has a company website
  or formats a dictionary.
\<close>

definition example_runtime :: runtime where
  "example_runtime = \<lparr>netloc = (\<lambda>v. None), dict_str = (\<lambda>d. [])\<rparr>"

text \<open>\<^verbatim>\<open>str(v)\<close>, as an f-string applies it.\<close>

fun py_str :: "runtime \<Rightarrow> val \<Rightarrow> string" where
  "py_str py VNone = ''None''"
| "py_str py (VStr s) = s"
| "py_str py (VBool b) = (if b then ''True'' else ''False'')"
| "py_str py (VNum n) = str_int n"
| "py_str py (VDict d) = dict_str py d"

text \<open>\<^verbatim>\<open>d.get(k)\<close>: \<^verbatim>\<open>None\<close> when the key is absent.\<close>

definition dget :: "dict \<Rightarrow> string \<Rightarrow> val" where
  "dget d k = (case map_of d k of None \<Rightarrow> VNone | Some v \<Rightarrow> v)"

section \<open>Field mapper\<close>

text \<open>
  The conversion of an external key to the local naming, written inline in the source as
  \<^verbatim>\<open>''.join(['_'+c.lower() if c.isupper() else c for c in key]).lstrip('_')\<close>.
\<close>

definition snake_key :: "string \<Rightarrow> string" where
  "snake_key key =
     dropWhile (\<lambda>c. c = CHR ''_'')
       (concat (map (\<lambda>c. if is_upper c then [CHR ''_'', lower_char c] else [c]) key))"

text \<open>\<^verbatim>\<open>s.replace(old, "")\<close>: the occurrences of \<open>old\<close> are removed from left to right.\<close>

function remove_all :: "string \<Rightarrow> string \<Rightarrow> string" where
  "remove_all old [] = []"
| "remove_all old (c # cs) =
     (if old \<noteq> [] \<and> take (length old) (c # cs) = old
      then remove_all old (drop (length old) (c # cs))
      else c # remove_all old cs)"
  by pat_completeness auto
termination
  by (relation "measure (\<lambda>(old, s). length s)") (auto simp: neq_Nil_conv)

text \<open>The fixed list of company keys that are hoisted out of a response entry.\<close>

definition company_keys :: "string list" where
  "company_keys = [''companyName'', ''companyDomain'', ''companyId'', ''industry'',
     ''companyRevenue'', ''companyEmployees'', ''companyLocation'']"

text \<open>
  Lines 281-287: the loop over the company keys pops each key that is present from the
  entry (which it changes in place) into \<^verbatim>\<open>company_info\<close>; a non-empty \<^verbatim>\<open>company_info\<close> is then
  stored under \<^verbatim>\<open>company\<close>. The state of the loop is the pair of \<^verbatim>\<open>company_info\<close> and the
  entry; \<open>hoist_company\<close> is the entry as the block leaves it.
\<close>

fun hoist_loop :: "string list \<Rightarrow> dict \<times> dict \<Rightarrow> dict \<times> dict" where
  "hoist_loop [] st = st"
| "hoist_loop (key # keys) (company_info, enriched) =
     (case map_of enriched key of
        Some v \<Rightarrow>
          hoist_loop keys
            (AList.update (remove_all ''company_'' (snake_key key)) v company_info,
             AList.delete key enriched)
      | None \<Rightarrow> hoist_loop keys (company_info, enriched))"

definition hoist_company :: "dict \<Rightarrow> dict" where
  "hoist_company enriched =
     (case hoist_loop company_keys ([], enriched) of
        (company_info, e) \<Rightarrow>
          if company_info \<noteq> [] then AList.update ''company'' (VDict company_info) e else e)"

text \<open>Lines 288-294: every key but \<^verbatim>\<open>company\<close> is renamed, in the order of the entry.\<close>

definition standardize :: "dict \<Rightarrow> dict" where
  "standardize enriched =
     foldl (\<lambda>standardized (key, value).
              if key \<noteq> ''company'' then AList.update (snake_key key) value standardized
              else AList.update key value standardized)
       [] enriched"

definition from_external :: "dict \<Rightarrow> dict" where
  "from_external entry = standardize (hoist_company entry)"

text \<open>
  Lines 207-227: the payload of one contact. Only fields present on the contact are sent;
  the domain is the network location of the website without a leading \<^verbatim>\<open>www.\<close>, or the raw
  website when parsing raises.
\<close>

definition company_domain :: "runtime \<Rightarrow> val \<Rightarrow> val" where
  "company_domain py website =
     (case netloc py website of
        Some domain \<Rightarrow> VStr (if take 4 domain = ''www.'' then drop 4 domain else domain)
      | None \<Rightarrow> website)"

definition put_if_present :: "dict \<Rightarrow> string \<Rightarrow> string \<Rightarrow> (val \<Rightarrow> val) \<Rightarrow> dict \<Rightarrow> dict" where
  "put_if_present contact local_key external_key f person_payload =
     (case map_of contact local_key of
        Some v \<Rightarrow> AList.update external_key (f v) person_payload
      | None \<Rightarrow> person_payload)"

definition to_external :: "runtime \<Rightarrow> dict \<Rightarrow> dict" where
  "to_external py contact =
     put_if_present contact ''company_website'' ''companyDomain'' (company_domain py)
    (put_if_present contact ''company_name'' ''companyName'' id
    (put_if_present contact ''title'' ''jobTitle'' id
    (put_if_present contact ''email'' ''email'' id
    (put_if_present contact ''last_name'' ''lastName'' id
    (put_if_present contact ''first_name'' ''firstName'' id [])))))"

text \<open>\<^verbatim>\<open>{**contact, **standardized}\<close>: the items of the second dictionary are stored in order.\<close>

definition dict_merge :: "dict \<Rightarrow> dict \<Rightarrow> dict" where
  "dict_merge d items = foldl (\<lambda>acc (k, v). AList.update k v acc) d items"

section \<open>Authentication\<close>

text \<open>
  The attributes of \<^verbatim>\<open>ZoomInfoEnricher\<close> that \<^verbatim>\<open>_authenticate\<close> reads and writes (the user
  name and password only travel to the service). What the outside world answers to one call of
  \<^verbatim>\<open>enrich_contact_batch\<close> is a \<open>call_env\<close>: the clock, the answer of the authentication
  endpoint (status, \<^verbatim>\<open>token\<close>, \<^verbatim>\<open>expiresIn\<close>) and the answer of the bulk endpoint (status and
  the \<^verbatim>\<open>results\<close> of the decoded body). \<open>Auth_raises\<close> and \<open>Call_raises\<close> stand for a request or
  a decoding that raises.
\<close>

record enricher =
  api_key :: "string option"
  auth_token :: "string option"
  token_expiry :: "int option"
  headers :: "string option"

datatype auth_reply = Auth_raises | Auth_response int "string option" "int option"

datatype bulk_reply = Call_raises | Response int "dict list"

record call_env =
  now :: int
  auth_result :: auth_reply
  post_result :: bulk_reply

text \<open>An attribute that is \<^verbatim>\<open>None\<close> or a string: its truthiness, and \<^verbatim>\<open>str\<close> of it.\<close>

definition nonempty :: "string option \<Rightarrow> bool" where
  "nonempty x = (case x of None \<Rightarrow> False | Some s \<Rightarrow> s \<noteq> [])"

definition str_of :: "string option \<Rightarrow> string" where
  "str_of x = (case x of None \<Rightarrow> ''None'' | Some s \<Rightarrow> s)"

text \<open>
  Lines 153-192, \<^verbatim>\<open>_authenticate\<close>: a token that has not expired is kept; an API key needs
  no request; otherwise the authentication endpoint is asked, and only status 200
  authenticates. The result is the returned boolean and the enricher after the call.
\<close>

definition authenticate :: "enricher \<Rightarrow> call_env \<Rightarrow> bool \<times> enricher" where
  "authenticate self env =
     (if nonempty (auth_token self) \<and>
         (case token_expiry self of None \<Rightarrow> False | Some t \<Rightarrow> now env < t)
      then (True, self)
      else if nonempty (api_key self) then
        (True, self\<lparr>headers := Some (''Bearer '' @ str_of (api_key self)),
                    token_expiry := Some (now env + 86400)\<rparr>)
      else
        (case auth_result env of
           Auth_raises \<Rightarrow> (False, self)
         | Auth_response status token expires_in \<Rightarrow>
             if status = 200 then
               (True, self\<lparr>auth_token := token,
                           token_expiry :=
                             Some (now env + (case expires_in of None \<Rightarrow> 86400 | Some n \<Rightarrow> n)),
                           headers := Some (''Bearer '' @ str_of token)\<rparr>)
             else (False, self)))"

section \<open>Batch enrichment and reconciliation\<close>

text \<open>A call either returns a value or raises an exception with a message.\<close>

datatype 'a outcome = Returned 'a | Raised string

text \<open>\<^verbatim>\<open>contact["zi_enriched"] = False\<close>, which changes the contact in place.\<close>

definition flag_unenriched :: "dict \<Rightarrow> dict" where
  "flag_unenriched contact = AList.update ''zi_enriched'' (VBool False) contact"

text \<open>
  \<^verbatim>\<open>(d.get(k) or '').strip().lower()\<close>. A truthy value that is not a string has no
  \<^verbatim>\<open>strip\<close>: the \<^verbatim>\<open>AttributeError\<close> is \<open>None\<close>.
\<close>

definition norm_field :: "dict \<Rightarrow> string \<Rightarrow> string option" where
  "norm_field d k =
     (let v = dget d k in
      if \<not> truthy v then Some []
      else (case v of VStr s \<Rightarrow> Some (py_lower (py_strip s)) | _ \<Rightarrow> None))"

definition keys_of :: "string \<Rightarrow> string \<Rightarrow> string \<Rightarrow> dict \<Rightarrow> ((string \<times> string) \<times> string) option" where
  "keys_of first_k last_k email_k d =
     (case norm_field d first_k of None \<Rightarrow> None
      | Some first_name \<Rightarrow>
     (case norm_field d last_k of None \<Rightarrow> None
      | Some last_name \<Rightarrow>
     (case norm_field d email_k of None \<Rightarrow> None
      | Some email \<Rightarrow> Some ((first_name, last_name), email))))"

definition entry_keys :: "dict \<Rightarrow> ((string \<times> string) \<times> string) option" where
  "entry_keys r = keys_of ''firstName'' ''lastName'' ''email'' r"

definition contact_keys :: "dict \<Rightarrow> ((string \<times> string) \<times> string) option" where
  "contact_keys contact = keys_of ''first_name'' ''last_name'' ''email'' contact"

text \<open>
  The response entries are objects that both lookups and the later loop share, and a match
  changes its entry in place. The entries therefore live in a store (the list \<^verbatim>\<open>results\<close>) and
  the lookups hold positions in it. Lines 245-258 build the lookups: every entry is appended
  to the list of its name key, and a non-empty email maps to the last entry that has it.
\<close>

type_synonym name_index = "string \<times> string \<rightharpoonup> nat list"
type_synonym email_index = "string \<rightharpoonup> nat"

fun build_lookups ::
  "(nat \<times> dict) list \<Rightarrow> name_index \<Rightarrow> email_index \<Rightarrow> (name_index \<times> email_index) option" where
  "build_lookups [] results_by_name results_by_email = Some (results_by_name, results_by_email)"
| "build_lookups ((j, r) # rest) results_by_name results_by_email =
     (case entry_keys r of
        None \<Rightarrow> None
      | Some (name_key, email) \<Rightarrow>
          build_lookups rest
            (results_by_name(name_key \<mapsto>
               (case results_by_name name_key of None \<Rightarrow> [] | Some js \<Rightarrow> js) @ [j]))
            (if email \<noteq> [] then results_by_email(email \<mapsto> j) else results_by_email))"

text \<open>Lines 271-275: the first entry of the name list whose normalized email is the contact's.\<close>

fun first_with_email :: "dict list \<Rightarrow> string \<Rightarrow> nat list \<Rightarrow> nat option option" where
  "first_with_email store email [] = Some None"
| "first_with_email store email (j # js) =
     (case norm_field (store ! j) ''email'' of
        None \<Rightarrow> None
      | Some r_email \<Rightarrow>
          if r_email = email then Some (Some j) else first_with_email store email js)"

text \<open>
  Lines 265-275: the entry chosen by name, as a position in the store: the only entry of
  the name key, or for several entries and a non-empty contact email the first of them with
  that email. The outer \<open>None\<close> is an exception.
\<close>

definition name_candidate ::
  "name_index \<Rightarrow> dict list \<Rightarrow> string \<times> string \<Rightarrow> string \<Rightarrow> nat option option" where
  "name_candidate results_by_name store name_key email =
     (case results_by_name name_key of
        Some [j] \<Rightarrow> Some (Some j)
      | Some (j # k # js) \<Rightarrow>
          if email \<noteq> [] then first_with_email store email (j # k # js) else Some None
      | _ \<Rightarrow> Some None)"

text \<open>
  Lines 277-278: the fallback to the email lookup. \<^verbatim>\<open>not enriched\<close> holds when nothing was
  chosen by name and also when the chosen entry is an empty dictionary.
\<close>

definition find_match ::
  "name_index \<Rightarrow> email_index \<Rightarrow> dict list \<Rightarrow> string \<times> string \<Rightarrow> string \<Rightarrow> nat option option" where
  "find_match results_by_name results_by_email store name_key email =
     (case name_candidate results_by_name store name_key email of
        None \<Rightarrow> None
      | Some enriched \<Rightarrow>
          Some (if (case enriched of None \<Rightarrow> True | Some j \<Rightarrow> store ! j = [])
                   \<and> email \<noteq> [] \<and> results_by_email email \<noteq> None
                then results_by_email email
                else enriched))"

text \<open>\<^verbatim>\<open>if enriched:\<close> a chosen entry counts only when it is not empty.\<close>

definition usable :: "dict list \<Rightarrow> nat option \<Rightarrow> nat option" where
  "usable store enriched =
     (case enriched of None \<Rightarrow> None | Some j \<Rightarrow> if store ! j \<noteq> [] then Some j else None)"

text \<open>Lines 295-296: the record appended for a matched contact.\<close>

definition merged_record :: "dict \<Rightarrow> dict \<Rightarrow> dict" where
  "merged_record contact standardized =
     AList.update ''zi_enriched'' (VBool True) (dict_merge contact standardized)"

text \<open>
  Lines 259-302: the loop over the contacts. It threads the store and returns the contacts
  as the loop leaves them (an unmatched contact is flagged in place) together with
  \<^verbatim>\<open>enriched_contacts\<close>.
\<close>

fun reconcile_loop ::
  "name_index \<Rightarrow> email_index \<Rightarrow> dict list \<Rightarrow> dict list \<Rightarrow> (dict list \<times> dict list) option" where
  "reconcile_loop bn be store [] = Some ([], [])"
| "reconcile_loop bn be store (contact # contacts) =
     (case contact_keys contact of
        None \<Rightarrow> None
      | Some (name_key, email) \<Rightarrow>
          (case find_match bn be store name_key email of
             None \<Rightarrow> None
           | Some enriched \<Rightarrow>
               (case usable store enriched of
                  Some j \<Rightarrow>
                    (let e = hoist_company (store ! j);
                         merged = merged_record contact (standardize e)
                     in map_option (\<lambda>(cs, out). (contact # cs, merged # out))
                          (reconcile_loop bn be (store[j := e]) contacts))
                | None \<Rightarrow>
                    (let c = flag_unenriched contact
                     in map_option (\<lambda>(cs, out). (c # cs, c # out))
                          (reconcile_loop bn be store contacts)))))"

text \<open>Lines 242-302, the body under status 200; \<open>None\<close> when it raises.\<close>

definition lookups :: "dict list \<Rightarrow> (name_index \<times> email_index) option" where
  "lookups results = build_lookups (enumerate 0 results) Map.empty Map.empty"

definition reconcile :: "dict list \<Rightarrow> dict list \<Rightarrow> (dict list \<times> dict list) option" where
  "reconcile results contacts =
     (case lookups results of
        None \<Rightarrow> None
      | Some (bn, be) \<Rightarrow> reconcile_loop bn be results contacts)"

text \<open>
  Lines 194-312, \<^verbatim>\<open>enrich_contact_batch\<close>. The result is the enricher after the call, the
  input contacts as the call leaves them, and what the call returns (or raises) to its
  caller. Without authentication, and when no contact has a field to send, the contacts are
  returned as they are. When the request or the body under status 200 raises, and for any
  other status, the handler flags every contact (flagging a contact that the loop had
  already flagged changes nothing) and returns the contacts.
\<close>

definition enrich_contact_batch ::
  "runtime \<Rightarrow> enricher \<Rightarrow> call_env \<Rightarrow> dict list \<Rightarrow> enricher \<times> dict list \<times> dict list outcome" where
  "enrich_contact_batch py self env contacts =
     (case authenticate self env of
        (ok, self') \<Rightarrow>
          if \<not> ok then (self', contacts, Returned contacts)
          else if filter (\<lambda>p. p \<noteq> []) (map (to_external py) contacts) = []
          then (self', contacts, Returned contacts)
          else
            (case post_result env of
               Response status results \<Rightarrow>
                 if status = 200 then
                   (case reconcile results contacts of
                      Some (contacts', enriched_contacts) \<Rightarrow>
                        (self', contacts', Returned enriched_contacts)
                    | None \<Rightarrow>
                        (self', map flag_unenriched contacts,
                         Returned (map flag_unenriched contacts)))
                 else
                   (self', map flag_unenriched contacts, Returned (map flag_unenriched contacts))
             | Call_raises \<Rightarrow>
                 (self', map flag_unenriched contacts, Returned (map flag_unenriched contacts))))"

section \<open>Orchestrators\<close>

text \<open>
  Lines 729-740 (and 565-578): the output row of one enriched record. A record without a
  name, an email and a phone raises \<^verbatim>\<open>ValueError\<close>.
\<close>

definition no_identity_message :: string where
  "no_identity_message = ''No name, email, or phone found after enrichment.''"

definition extract_row :: "runtime \<Rightarrow> dict \<Rightarrow> dict outcome" where
  "extract_row py enriched =
     (let first_name = py_or (get_or_empty enriched ''first_name'') (get_or_empty enriched ''First Name'');
          last_name = py_or (get_or_empty enriched ''last_name'') (get_or_empty enriched ''Last Name'');
          name = py_strip (py_str py first_name @ '' '' @ py_str py last_name);
          email = py_or (get_or_empty enriched ''email'') (get_or_empty enriched ''Email'');
          phone = py_or (py_or (get_or_empty enriched ''phone'') (get_or_empty enriched ''DirectPhone''))
                    (get_or_empty enriched ''Contact Phone'')
      in if \<not> (name \<noteq> [] \<or> truthy email \<or> truthy phone) then Raised no_identity_message
         else Returned [(''Name'', VStr name), (''Email'', email), (''Contact Phone'', phone)])"

text \<open>
  The state of a run: the enricher, the number of calls of \<^verbatim>\<open>enrich_contact_batch\<close> made so
  far (call number \<open>n\<close> is answered by \<open>env n\<close>), the success rows and the error entries. An
  error entry refers to a contact object and is paired with a message.
\<close>

record run_state =
  enr :: enricher
  calls :: nat
  processed_contacts :: "dict list"
  errors :: "(dict \<times> string) list"

definition batch_error :: "string \<Rightarrow> string" where
  "batch_error msg = ''Batch enrichment error: '' @ msg"

subsection \<open>The command line: \<^verbatim>\<open>process_file\<close>\<close>

text \<open>
  Lines 728-740: the loop over \<^verbatim>\<open>zip(batch, enriched_batch)\<close> inside the \<^verbatim>\<open>try\<close> of one
  attempt. It appends to \<^verbatim>\<open>processed_contacts\<close> and stops at the first record that raises.
\<close>

fun extract_all :: "runtime \<Rightarrow> (dict \<times> dict) list \<Rightarrow> dict list \<Rightarrow> dict list \<times> string option" where
  "extract_all py [] processed = (processed, None)"
| "extract_all py ((orig, enriched) # rest) processed =
     (case extract_row py enriched of
        Raised msg \<Rightarrow> (processed, Some msg)
      | Returned row \<Rightarrow> extract_all py rest (processed @ [row]))"

text \<open>
  Lines 724-742: one attempt on a batch. The result is the state, the contacts of the batch
  as the attempt leaves them, and the message of the exception when the attempt raised.
\<close>

definition attempt_batch ::
  "runtime \<Rightarrow> (nat \<Rightarrow> call_env) \<Rightarrow> run_state \<Rightarrow> dict list \<Rightarrow> run_state \<times> dict list \<times> string option" where
  "attempt_batch py env s batch =
     (case enrich_contact_batch py (enr s) (env (calls s)) batch of
        (self', batch', result) \<Rightarrow>
          (let s1 = s\<lparr>enr := self', calls := Suc (calls s)\<rparr> in
           case result of
             Raised msg \<Rightarrow> (s1, batch', Some msg)
           | Returned enriched_batch \<Rightarrow>
               (case extract_all py (zip batch' enriched_batch) (processed_contacts s1) of
                  (processed, err) \<Rightarrow> (s1\<lparr>processed_contacts := processed\<rparr>, batch', err))))"

text \<open>
  Lines 722-752: \<^verbatim>\<open>for batch_attempt in range(args.retries + 1)\<close>. The first argument
  counts the attempts that may still follow the current one
  (\<^verbatim>\<open>args.retries - batch_attempt\<close>): an attempt that raises is followed by another while
  that number is positive, and the last one that raises turns every contact of the batch
  into an error entry. The number of retries is not negative.
\<close>

fun batch_attempts ::
  "runtime \<Rightarrow> (nat \<Rightarrow> call_env) \<Rightarrow> nat \<Rightarrow> run_state \<Rightarrow> dict list \<Rightarrow> run_state \<times> dict list" where
  "batch_attempts py env (Suc left) s batch =
     (case attempt_batch py env s batch of
        (s', batch', None) \<Rightarrow> (s', batch')
      | (s', batch', Some msg) \<Rightarrow> batch_attempts py env left s' batch')"
| "batch_attempts py env 0 s batch =
     (case attempt_batch py env s batch of
        (s', batch', None) \<Rightarrow> (s', batch')
      | (s', batch', Some msg) \<Rightarrow>
          (s'\<lparr>errors := errors s' @ map (\<lambda>contact. (contact, batch_error msg)) batch'\<rparr>,
           batch'))"

text \<open>
  \<^verbatim>\<open>contact_list[i:i + batch_size] for i in range(0, total, batch_size)\<close> for a positive
  batch size.
\<close>

function chunks :: "nat \<Rightarrow> 'a list \<Rightarrow> 'a list list" where
  "chunks n xs = (if n = 0 \<or> xs = [] then [] else take n xs # chunks n (drop n xs))"
  by pat_completeness auto
termination
  by (relation "measure (\<lambda>(n, xs). length xs)") auto

declare chunks.simps [simp del]

text \<open>Lines 757-763: an error row is a copy of the contact with the message added.\<close>

definition error_row :: "dict \<times> string \<Rightarrow> dict" where
  "error_row err = AList.update ''error'' (VStr (snd err)) (fst err)"

text \<open>
  Lines 712-780 for one file whose contacts are \<open>contact_list\<close>: the success rows and the
  error rows. Every exception of a batch is caught inside the batch loop, so the outer
  \<^verbatim>\<open>try\<close> only sees what \<^verbatim>\<open>range\<close> raises for a zero batch size (before any call is made; each
  of the attempts raises it again, and every contact becomes an error row), and a negative
  batch size gives no batch at all. Reading and writing files is left out.
\<close>

definition process_file ::
  "runtime \<Rightarrow> int \<Rightarrow> nat \<Rightarrow> (nat \<Rightarrow> call_env) \<Rightarrow> enricher \<Rightarrow> dict list \<Rightarrow> dict list \<times> dict list" where
  "process_file py batch_size retries env self contact_list =
     (if batch_size = 0 then
        ([], map (\<lambda>row. AList.update ''error'' (VStr ''range() arg 3 must not be zero'') row)
               contact_list)
      else
        (let s = foldl (\<lambda>s batch. fst (batch_attempts py env retries s batch))
                   \<lparr>enr = self, calls = 0, processed_contacts = [], errors = []\<rparr>
                   (chunks (nat batch_size) contact_list)
         in (processed_contacts s, map error_row (errors s))))"

subsection \<open>The library: \<^verbatim>\<open>LeadGenerator.process_contact_list\<close>\<close>

text \<open>
  Lines 562-584: here every record has a \<^verbatim>\<open>try\<close> of its own; a record that raises becomes
  an error entry and the loop goes on.
\<close>

fun extract_each :: "runtime \<Rightarrow> (dict \<times> dict) list \<Rightarrow> run_state \<Rightarrow> run_state" where
  "extract_each py [] s = s"
| "extract_each py ((orig, enriched) # rest) s =
     (case extract_row py enriched of
        Returned row \<Rightarrow>
          extract_each py rest (s\<lparr>processed_contacts := processed_contacts s @ [row]\<rparr>)
      | Raised msg \<Rightarrow> extract_each py rest (s\<lparr>errors := errors s @ [(orig, msg)]\<rparr>))"

text \<open>
  Lines 546-584: one batch. The generator may have no enricher; a call that raises turns
  every contact of the batch into an error entry.
\<close>

definition process_batch ::
  "runtime \<Rightarrow> bool \<Rightarrow> (nat \<Rightarrow> call_env) \<Rightarrow> run_state \<Rightarrow> dict list \<Rightarrow> run_state" where
  "process_batch py has_enricher env s batch =
     (if has_enricher then
        (case enrich_contact_batch py (enr s) (env (calls s)) batch of
           (self', batch', result) \<Rightarrow>
             (let s1 = s\<lparr>enr := self', calls := Suc (calls s)\<rparr> in
              case result of
                Raised msg \<Rightarrow>
                  s1\<lparr>errors := errors s1 @ map (\<lambda>contact. (contact, batch_error msg)) batch'\<rparr>
              | Returned enriched_batch \<Rightarrow> extract_each py (zip batch' enriched_batch) s1))
      else extract_each py (zip batch batch) s)"

text \<open>
  \<^verbatim>\<open>process_contact_list\<close> up to the two sequences it writes out; \<open>None\<close> is the
  \<^verbatim>\<open>ValueError\<close> of \<^verbatim>\<open>range\<close> for a zero batch size, which nothing catches.
\<close>

definition process_contact_list ::
  "runtime \<Rightarrow> bool \<Rightarrow> int \<Rightarrow> (nat \<Rightarrow> call_env) \<Rightarrow> run_state \<Rightarrow> dict list \<Rightarrow> run_state option" where
  "process_contact_list py has_enricher batch_size env s contact_list =
     (if batch_size = 0 then None
      else Some (foldl (process_batch py has_enricher env) s (chunks (nat batch_size) contact_list)))"

section \<open>Contact qualifier: the company-size criterion\<close>

text \<open>
  \<^verbatim>\<open>ContactQualifier\<close> keeps its target lists and the size range; \<^verbatim>\<open>qualify_contact\<close>
  threads \<^verbatim>\<open>score\<close>, \<^verbatim>\<open>max_score\<close> and \<^verbatim>\<open>reasons\<close> through one block per criterion.
  The block for the company size (lines 457-477) is modelled here.
\<close>

record qualifier =
  title_keywords :: "string list"
  department_keywords :: "string list"
  min_company_size :: int
  max_company_size :: int
  target_industries :: "string list"
  target_locations :: "string list"

text \<open>
  \<^verbatim>\<open>company_size_str\<close>: the top-level field, else (when that is missing or falsy and
  \<^verbatim>\<open>company\<close> is a dictionary) the nested \<^verbatim>\<open>employees\<close>.
\<close>

definition company_size_str :: "dict \<Rightarrow> val" where
  "company_size_str contact_data =
     (let s = dget contact_data ''company_size'' in
      if \<not> truthy s then
        (case map_of contact_data ''company'' of
           Some (VDict company) \<Rightarrow> dget company ''employees''
         | _ \<Rightarrow> s)
      else s)"

text \<open>The three parsing branches of the \<^verbatim>\<open>try\<close> block; \<open>None\<close> is \<^verbatim>\<open>ValueError\<close>.\<close>

definition parse_company_size :: "string \<Rightarrow> int option" where
  "parse_company_size s =
     (if CHR ''-'' \<in> set s then
        py_int (py_strip (remove_char CHR ''+'' (remove_char CHR '','' (before_hyphen s))))
      else if CHR ''+'' \<in> set s then
        py_int (py_strip (remove_char CHR ''+'' (remove_char CHR '','' s)))
      else py_int (py_strip (remove_char CHR '','' s)))"

definition reason_within :: "int \<Rightarrow> string" where
  "reason_within n = ''Company size ('' @ str_int n @ '') is within target range''"

definition reason_outside :: "int \<Rightarrow> string" where
  "reason_outside n = ''Company size ('' @ str_int n @ '') is outside target range''"

definition reason_unknown :: "runtime \<Rightarrow> val \<Rightarrow> string" where
  "reason_unknown py v = ''Could not determine company size from '' @ [CHR 0x27] @ py_str py v @ [CHR 0x27]"

text \<open>
  The block itself, on the triple (\<^verbatim>\<open>score\<close>, \<^verbatim>\<open>max_score\<close>, \<^verbatim>\<open>reasons\<close>). A truthy size
  that is a number or a boolean makes \<^verbatim>\<open>"-" in company_size_str\<close> raise \<^verbatim>\<open>TypeError\<close>, which
  the block does not catch: the result is \<open>None\<close>. A dictionary has no \<^verbatim>\<open>split\<close> or
  \<^verbatim>\<open>replace\<close>: \<^verbatim>\<open>AttributeError\<close>, which is caught like \<^verbatim>\<open>ValueError\<close>.
\<close>

definition company_size_step ::
  "runtime \<Rightarrow> qualifier \<Rightarrow> dict \<Rightarrow> int \<times> int \<times> string list \<Rightarrow> (int \<times> int \<times> string list) option" where
  "company_size_step py q contact_data acc =
     (case acc of (score, max_score, reasons) \<Rightarrow>
      let v = company_size_str contact_data in
      if \<not> truthy v then Some (score, max_score, reasons)
      else
        (case v of
           VStr s \<Rightarrow>
             (case parse_company_size s of
                Some company_size \<Rightarrow>
                  if min_company_size q \<le> company_size \<and> company_size \<le> max_company_size q
                  then Some (score + 1, max_score + 1, reasons @ [reason_within company_size])
                  else Some (score, max_score + 1, reasons @ [reason_outside company_size])
              | None \<Rightarrow> Some (score, max_score + 1, reasons @ [reason_unknown py v]))
         | VDict d \<Rightarrow> Some (score, max_score + 1, reasons @ [reason_unknown py v])
         | _ \<Rightarrow> None))"

text \<open>The qualifier's defaults for the size range (50 to 1000), with empty target lists.\<close>

definition default_qualifier :: qualifier where
  "default_qualifier = \<lparr>title_keywords = [], department_keywords = [], min_company_size = 50,
     max_company_size = 1000, target_industries = [], target_locations = []\<rparr>"


section \<open>Notions used in the statements\<close>

text \<open>
  The entry that the matching policy chooses for a contact among the response entries as
  they were received, and the record that the contact then yields: the merge with the mapped
  fields of that entry, or the contact itself with the flag set to false.
\<close>

definition chosen_with :: "name_index \<Rightarrow> email_index \<Rightarrow> dict list \<Rightarrow> dict \<Rightarrow> nat option" where
  "chosen_with bn be results contact =
     (case contact_keys contact of
        None \<Rightarrow> None
      | Some (name_key, email) \<Rightarrow>
          (case find_match bn be results name_key email of
             None \<Rightarrow> None
           | Some enriched \<Rightarrow> usable results enriched))"

definition chosen_entry :: "dict list \<Rightarrow> dict \<Rightarrow> nat option" where
  "chosen_entry results contact =
     (case lookups results of
        None \<Rightarrow> None
      | Some (bn, be) \<Rightarrow> chosen_with bn be results contact)"

definition enrichment_result :: "dict list \<Rightarrow> dict \<Rightarrow> dict" where
  "enrichment_result results contact =
     (case chosen_entry results contact of
        Some j \<Rightarrow> merged_record contact (from_external (results ! j))
      | None \<Rightarrow> flag_unenriched contact)"

text \<open>The positions of the response entries whose normalized name is the given key.\<close>

definition entries_named :: "dict list \<Rightarrow> string \<times> string \<Rightarrow> nat list" where
  "entries_named results name_key =
     map fst (filter (\<lambda>(j, r). map_option fst (entry_keys r) = Some name_key) (enumerate 0 results))"

text \<open>A contact after a call: as it was, or as it was with the flag set to false.\<close>

definition flag_only :: "dict \<Rightarrow> dict \<Rightarrow> bool" where
  "flag_only before after = (after = before \<or> after = flag_unenriched before)"

text \<open>An entry of the store during the loop: as received, or with its company keys hoisted.\<close>

definition same_entry :: "dict \<Rightarrow> dict \<Rightarrow> bool" where
  "same_entry e e' = (e' = e \<or> e' = hoist_company e)"

text \<open>The positions held by the lookups lie in a store of \<open>n\<close> entries.\<close>

definition valid_lookups :: "nat \<Rightarrow> name_index \<Rightarrow> email_index \<Rightarrow> bool" where
  "valid_lookups n bn be =
     ((\<forall>key js. bn key = Some js \<longrightarrow> (\<forall>j\<in>set js. j < n)) \<and> (\<forall>em j. be em = Some j \<longrightarrow> j < n))"





section \<open>Example inputs\<close>

text \<open>
  An enricher with an API key (it always authenticates) and one with a user name and
  password only (it authenticates when the authentication endpoint answers 200); the answer
  of the outside world to one call, with an authentication endpoint that raises; and the
  contacts and response entries of the scenario of the specification.
\<close>

definition keyed_enricher :: enricher where
  "keyed_enricher = \<lparr>api_key = Some ''key'', auth_token = None, token_expiry = None, headers = None\<rparr>"


definition answering :: "bulk_reply \<Rightarrow> call_env" where
  "answering r = \<lparr>now = 0, auth_result = Auth_raises, post_result = r\<rparr>"

definition jane_x :: dict where
  "jane_x = [(''first_name'', VStr ''Jane''), (''last_name'', VStr ''Doe''), (''email'', VStr ''jane@x.com'')]"

definition jane_y :: dict where
  "jane_y = [(''first_name'', VStr ''Jane''), (''last_name'', VStr ''Doe''), (''email'', VStr ''jd@y.com'')]"

definition acme_only :: dict where
  "acme_only = [(''company_name'', VStr ''Acme'')]"

definition entry_cto :: dict where
  "entry_cto = [(''firstName'', VStr ''Jane''), (''lastName'', VStr ''Doe''),
     (''email'', VStr ''jane@x.com''), (''jobTitle'', VStr ''CTO'')]"

definition entry_vp :: dict where
  "entry_vp = [(''firstName'', VStr ''Jane''), (''lastName'', VStr ''Doe''),
     (''email'', VStr ''jd@y.com''), (''jobTitle'', VStr ''VP'')]"

definition entry_bob :: dict where
  "entry_bob = [(''firstName'', VStr ''Bob''), (''email'', VStr ''a@x.com'')]"

text \<open>The state in which a run starts, and the output row of the first contact.\<close>

definition fresh_state :: "enricher \<Rightarrow> run_state" where
  "fresh_state self = \<lparr>enr = self, calls = 0, processed_contacts = [], errors = []\<rparr>"

definition jane_row :: dict where
  "jane_row = [(''Name'', VStr ''Jane Doe''), (''Email'', VStr ''jane@x.com''), (''Contact Phone'', VStr [])]"

text \<open>
  The enricher with an API key after its first call. Three outside worlds: every call is
  answered with status 200 and no results; every call with an entry that has an email but no
  name, except the first one, which is answered with status 500; the authentication
  endpoint raises and the bulk endpoint would answer 200 with the entry of the first contact.
\<close>

definition keyed_enricher_used :: enricher where
  "keyed_enricher_used = \<lparr>api_key = Some ''key'', auth_token = None, token_expiry = Some 86400,
     headers = Some ''Bearer key''\<rparr>"

definition always_no_match :: "nat \<Rightarrow> call_env" where
  "always_no_match n = answering (Response 200 [])"



section \<open>What a call of the enricher returns and changes\<close>

lemma flag_only_refl: "list_all2 flag_only cs cs"
  by (simp add: list_all2_refl flag_only_def)

lemma flag_only_map: "list_all2 flag_only cs (map flag_unenriched cs)"
  by (induction cs) (auto simp: flag_only_def)

lemma reconcile_loop_flag_only:
  "reconcile_loop bn be store cs = Some (cs', out) \<Longrightarrow> list_all2 flag_only cs cs'"
proof (induction cs arbitrary: store cs' out)
  case Nil
  then show ?case by simp
next
  case (Cons c cs)
  then show ?case
    by (auto simp: flag_only_def Let_def split: option.splits prod.splits)
qed

lemma reconcile_loop_length:
  "reconcile_loop bn be store cs = Some (cs', out) \<Longrightarrow> length out = length cs"
proof (induction cs arbitrary: store cs' out)
  case Nil
  then show ?case by simp
next
  case (Cons c cs)
  then show ?case
    by (auto simp: Let_def split: option.splits prod.splits)
qed

lemma reconcile_flag_only:
  "reconcile results cs = Some (cs', out) \<Longrightarrow> list_all2 flag_only cs cs'"
  using reconcile_loop_flag_only by (auto simp: reconcile_def split: option.splits prod.splits)

lemma reconcile_length:
  "reconcile results cs = Some (cs', out) \<Longrightarrow> length out = length cs"
  using reconcile_loop_length by (auto simp: reconcile_def split: option.splits prod.splits)

lemma enrich_cases:
  "enrich_contact_batch py self env contacts = (self', contacts', result) \<Longrightarrow>
   self' = snd (authenticate self env) \<and>
   ((contacts' = contacts \<and> result = Returned contacts)
    \<or> (contacts' = map flag_unenriched contacts \<and> result = Returned (map flag_unenriched contacts))
    \<or> (\<exists>results out. post_result env = Response 200 results \<and>
          reconcile results contacts = Some (contacts', out) \<and> result = Returned out))"
  by (auto simp: enrich_contact_batch_def split: prod.splits if_splits bulk_reply.splits option.splits)

lemma enrich_flag_only:
  "list_all2 flag_only contacts (fst (snd (enrich_contact_batch py self env contacts)))"
proof -
  obtain self' contacts' result
    where e: "enrich_contact_batch py self env contacts = (self', contacts', result)"
    by (cases "enrich_contact_batch py self env contacts") auto
  from enrich_cases [OF e] show ?thesis
    using e reconcile_flag_only by (auto simp: flag_only_refl flag_only_map)
qed

lemma enrich_returns:
  "\<exists>out. snd (snd (enrich_contact_batch py self env contacts)) = Returned out
     \<and> length out = length contacts"
proof -
  obtain self' contacts' result
    where e: "enrich_contact_batch py self env contacts = (self', contacts', result)"
    by (cases "enrich_contact_batch py self env contacts") auto
  from enrich_cases [OF e] show ?thesis
    using e reconcile_length by auto
qed



lemma enrich_request_failure:
  assumes "fst (authenticate self env)"
    and "\<exists>c\<in>set contacts. to_external py c \<noteq> []"
    and "post_result env = Call_raises \<or> (\<exists>status results. post_result env = Response status results \<and> status \<noteq> 200)"
  shows "enrich_contact_batch py self env contacts =
     (snd (authenticate self env), map flag_unenriched contacts, Returned (map flag_unenriched contacts))"
proof -
  have "filter (\<lambda>p. p \<noteq> []) (map (to_external py) contacts) \<noteq> []"
    using assms(2) by (auto simp: filter_empty_conv)
  then show ?thesis
    using assms(1,3) by (auto simp: enrich_contact_batch_def split: prod.splits)
qed

section \<open>Hoisting the company keys\<close>

lemma update_nonempty: "AList.update k v al \<noteq> []"
  by (cases al) auto

lemma hoist_loop_map_of:
  "map_of (snd (hoist_loop ks (info, e))) k = (if k \<in> set ks then None else map_of e k)"
  by (induction ks arbitrary: info e) (auto simp: delete_conv split: option.splits)

lemma hoist_loop_absent:
  "\<forall>k\<in>set ks. map_of e k = None \<Longrightarrow> hoist_loop ks (info, e) = (info, e)"
  by (induction ks) auto

lemma hoist_loop_info_nonempty:
  "info \<noteq> [] \<Longrightarrow> fst (hoist_loop ks (info, e)) \<noteq> []"
  by (induction ks arbitrary: info e) (auto simp: update_nonempty split: option.splits)

lemma hoist_loop_info_empty:
  "fst (hoist_loop ks ([], e)) = [] \<Longrightarrow> snd (hoist_loop ks ([], e)) = e"
proof (induction ks arbitrary: e)
  case Nil
  then show ?case by simp
next
  case (Cons key keys)
  show ?case
  proof (cases "map_of e key")
    case None
    with Cons show ?thesis by simp
  next
    case (Some v)
    have "fst (hoist_loop keys ([(remove_all ''company_'' (snake_key key), v)],
        AList.delete key e)) \<noteq> []"
      by (rule hoist_loop_info_nonempty) simp
    with Cons.prems Some have False by simp
    then show ?thesis ..
  qed
qed

lemma company_not_company_key: "''company'' \<notin> set company_keys"
  by (simp add: company_keys_def)

lemma hoist_company_map_of:
  assumes "k \<notin> set company_keys" "k \<noteq> ''company''"
  shows "map_of (hoist_company e) k = map_of e k"
proof -
  obtain info e' where l: "hoist_loop company_keys ([], e) = (info, e')"
    by (cases "hoist_loop company_keys ([], e)") auto
  have "map_of e' k = map_of e k"
    using hoist_loop_map_of [of company_keys "[]" e k] l assms(1) by simp
  then show ?thesis
    using assms(2) by (simp add: hoist_company_def l update_conv')
qed

lemma hoist_company_empty: "(hoist_company e = []) = (e = [])"
proof -
  obtain info e' where l: "hoist_loop company_keys ([], e) = (info, e')"
    by (cases "hoist_loop company_keys ([], e)") auto
  show ?thesis
  proof (cases "info = []")
    case True
    then have "e' = e" using hoist_loop_info_empty [of company_keys e] l by simp
    with True show ?thesis by (simp add: hoist_company_def l)
  next
    case False
    then have "e \<noteq> []"
      using l hoist_loop_absent [of company_keys "[]" "[]"] by auto
    with False show ?thesis by (simp add: hoist_company_def l update_nonempty)
  qed
qed

lemma hoist_company_idem: "hoist_company (hoist_company e) = hoist_company e"
proof -
  obtain info e' where l: "hoist_loop company_keys ([], e) = (info, e')"
    by (cases "hoist_loop company_keys ([], e)") auto
  have gone: "\<forall>k\<in>set company_keys. map_of e' k = None"
    using hoist_loop_map_of [of company_keys "[]" e] l by simp
  show ?thesis
  proof (cases "info = []")
    case True
    then have "e' = e" using hoist_loop_info_empty [of company_keys e] l by simp
    with True l have "hoist_company e = e" by (simp add: hoist_company_def)
    then show ?thesis by simp
  next
    case False
    let ?h = "AList.update ''company'' (VDict info) e'"
    have h: "hoist_company e = ?h" using False by (simp add: hoist_company_def l)
    have "\<forall>k\<in>set company_keys. map_of ?h k = None"
      using gone company_not_company_key by (auto simp: update_conv')
    then have "hoist_loop company_keys ([], ?h) = ([], ?h)"
      by (rule hoist_loop_absent)
    then have "hoist_company ?h = ?h" by (simp add: hoist_company_def)
    with h show ?thesis by simp
  qed
qed

lemma norm_field_cong: "map_of e' k = map_of e k \<Longrightarrow> norm_field e' k = norm_field e k"
  by (simp add: norm_field_def dget_def)

lemma same_entry_email: "same_entry e e' \<Longrightarrow> norm_field e' ''email'' = norm_field e ''email''"
  by (auto simp: same_entry_def company_keys_def intro!: norm_field_cong hoist_company_map_of)

lemma same_entry_empty: "same_entry e e' \<Longrightarrow> (e' = []) = (e = [])"
  by (auto simp: same_entry_def hoist_company_empty)

lemma same_entry_hoist: "same_entry e e' \<Longrightarrow> hoist_company e' = hoist_company e"
  by (auto simp: same_entry_def hoist_company_idem)

lemma same_entry_refl: "same_entry e e"
  by (simp add: same_entry_def)

lemma same_entry_hoisted: "same_entry e (hoist_company e)"
  by (simp add: same_entry_def)

section \<open>The lookups\<close>

lemma valid_names: "valid_lookups n bn be \<Longrightarrow> bn key = Some js \<Longrightarrow> j \<in> set js \<Longrightarrow> j < n"
  unfolding valid_lookups_def by blast

lemma valid_emails: "valid_lookups n bn be \<Longrightarrow> be em = Some j \<Longrightarrow> j < n"
  unfolding valid_lookups_def by blast

lemma build_lookups_valid:
  "build_lookups jrs bn be = Some (bn', be') \<Longrightarrow> valid_lookups n bn be \<Longrightarrow>
   \<forall>p\<in>set jrs. fst p < n \<Longrightarrow> valid_lookups n bn' be'"
proof (induction jrs arbitrary: bn be)
  case Nil
  then show ?case by simp
next
  case (Cons p jrs)
  obtain j r where p: "p = (j, r)" by (cases p)
  obtain nk em where k: "entry_keys r = Some (nk, em)"
    using Cons.prems(1) p by (auto split: option.splits)
  let ?bn = "bn(nk \<mapsto> (case bn nk of None \<Rightarrow> [] | Some js \<Rightarrow> js) @ [j])"
  let ?be = "if em \<noteq> [] then be(em \<mapsto> j) else be"
  have j: "j < n" using Cons.prems(3) p by simp
  have v: "valid_lookups n ?bn ?be"
    unfolding valid_lookups_def
  proof (intro conjI allI impI ballI)
    fix key js i
    assume a: "?bn key = Some js" "i \<in> set js"
    show "i < n"
    proof (cases "key = nk")
      case True
      with a have "i = j \<or> (\<exists>old. bn nk = Some old \<and> i \<in> set old)"
        by (auto split: option.splits)
      then show ?thesis using j valid_names [OF Cons.prems(2)] by blast
    next
      case False
      with a have "bn key = Some js" by simp
      then show ?thesis using a(2) valid_names [OF Cons.prems(2)] by blast
    qed
  next
    fix e i
    assume "?be e = Some i"
    then have "i = j \<or> be e = Some i" by (auto split: if_splits)
    then show "i < n" using j valid_emails [OF Cons.prems(2)] by blast
  qed
  have b: "build_lookups jrs ?bn ?be = Some (bn', be')"
    using Cons.prems(1) p k by simp
  have r: "\<forall>p\<in>set jrs. fst p < n"
    using Cons.prems(3) by simp
  show ?case by (rule Cons.IH [OF b v r])
qed

lemma lookups_valid:
  "lookups results = Some (bn, be) \<Longrightarrow> valid_lookups (length results) bn be"
proof -
  assume l: "lookups results = Some (bn, be)"
  have "valid_lookups (length results) Map.empty Map.empty"
    by (simp add: valid_lookups_def)
  moreover have "\<forall>p\<in>set (enumerate 0 results). fst p < length results"
    by (auto simp: in_set_enumerate_eq)
  ultimately show ?thesis
    using build_lookups_valid l unfolding lookups_def by blast
qed

lemma build_lookups_total:
  "\<forall>p\<in>set jrs. entry_keys (snd p) \<noteq> None \<Longrightarrow> build_lookups jrs bn be \<noteq> None"
  by (induction jrs arbitrary: bn be) (auto split: option.splits)

lemma lookups_total:
  "\<forall>r\<in>set results. entry_keys r \<noteq> None \<Longrightarrow> \<exists>bn be. lookups results = Some (bn, be)"
proof -
  assume a: "\<forall>r\<in>set results. entry_keys r \<noteq> None"
  have "\<forall>p\<in>set (enumerate 0 results). entry_keys (snd p) \<noteq> None"
    using a by (auto simp: in_set_enumerate_eq)
  then have "build_lookups (enumerate 0 results) Map.empty Map.empty \<noteq> None"
    by (rule build_lookups_total)
  then show ?thesis by (auto simp: lookups_def)
qed

lemma build_lookups_names:
  "build_lookups jrs bn be = Some (bn', be') \<Longrightarrow>
   bn' key =
     (let new = map fst (filter (\<lambda>(j, r). map_option fst (entry_keys r) = Some key) jrs)
      in if new = [] then bn key
         else Some ((case bn key of None \<Rightarrow> [] | Some js \<Rightarrow> js) @ new))"
proof (induction jrs arbitrary: bn be)
  case Nil
  then show ?case by simp
next
  case (Cons p jrs)
  obtain j r where p: "p = (j, r)" by (cases p)
  obtain nk em where k: "entry_keys r = Some (nk, em)"
    using Cons.prems(1) p by (auto split: option.splits)
  let ?bn = "bn(nk \<mapsto> (case bn nk of None \<Rightarrow> [] | Some js \<Rightarrow> js) @ [j])"
  let ?be = "if em \<noteq> [] then be(em \<mapsto> j) else be"
  have "build_lookups jrs ?bn ?be = Some (bn', be')"
    using Cons.prems(1) p k by simp
  from Cons.IH [OF this] show ?case
    using p k by (auto simp: Let_def split: option.splits)
qed

lemma lookups_names:
  "lookups results = Some (bn, be) \<Longrightarrow>
   bn key = (if entries_named results key = [] then None else Some (entries_named results key))"
  using build_lookups_names [of "enumerate 0 results" Map.empty Map.empty bn be key]
  by (simp add: lookups_def entries_named_def Let_def)

lemma entry_keys_email: "entry_keys r \<noteq> None \<Longrightarrow> norm_field r ''email'' \<noteq> None"
  by (auto simp: entry_keys_def keys_of_def split: option.splits)

lemma first_with_email_same:
  "list_all2 same_entry results store \<Longrightarrow> \<forall>j\<in>set js. j < length results \<Longrightarrow>
   first_with_email store em js = first_with_email results em js"
proof (induction js)
  case Nil
  then show ?case by simp
next
  case (Cons j js)
  then have "same_entry (results ! j) (store ! j)"
    by (simp add: list_all2_nthD)
  then have "norm_field (store ! j) ''email'' = norm_field (results ! j) ''email''"
    by (rule same_entry_email)
  with Cons show ?case by (auto split: option.splits)
qed

lemma first_with_email_total:
  "\<forall>j\<in>set js. norm_field (results ! j) ''email'' \<noteq> None \<Longrightarrow>
   first_with_email results em js \<noteq> None"
  by (induction js) (auto split: option.splits)

lemma first_with_email_member:
  "first_with_email results em js = Some (Some j) \<Longrightarrow> j \<in> set js"
  by (induction js) (auto split: option.splits if_splits)

lemma name_candidate_same:
  assumes "valid_lookups (length results) bn be" "list_all2 same_entry results store"
  shows "name_candidate bn store nk em = name_candidate bn results nk em"
proof (cases "bn nk")
  case None
  then show ?thesis by (simp add: name_candidate_def)
next
  case (Some js)
  then have "\<forall>j\<in>set js. j < length results"
    using valid_names [OF assms(1)] by blast
  then have "first_with_email store em js = first_with_email results em js"
    using first_with_email_same [OF assms(2)] by blast
  with Some show ?thesis
    by (auto simp: name_candidate_def split: list.splits)
qed

lemma name_candidate_valid:
  assumes "valid_lookups n bn be" "name_candidate bn results nk em = Some (Some j)"
  shows "j < n"
proof (cases "bn nk")
  case None
  with assms(2) show ?thesis by (simp add: name_candidate_def)
next
  case (Some js)
  then have v: "\<forall>j\<in>set js. j < n"
    using valid_names [OF assms(1)] by blast
  have "j \<in> set js"
    using assms(2) Some first_with_email_member [of results em js j]
    by (auto simp: name_candidate_def split: list.splits if_splits)
  with v show ?thesis by blast
qed

lemma name_candidate_total:
  assumes "valid_lookups (length results) bn be" "\<forall>r\<in>set results. entry_keys r \<noteq> None"
  shows "name_candidate bn results nk em \<noteq> None"
proof (cases "bn nk")
  case None
  then show ?thesis by (simp add: name_candidate_def)
next
  case (Some js)
  then have "\<forall>j\<in>set js. j < length results"
    using valid_names [OF assms(1)] by blast
  then have "\<forall>j\<in>set js. norm_field (results ! j) ''email'' \<noteq> None"
    using assms(2) entry_keys_email by (metis nth_mem)
  then have "first_with_email results em js \<noteq> None"
    by (rule first_with_email_total)
  with Some show ?thesis
    by (auto simp: name_candidate_def split: list.splits)
qed

section \<open>The reconciliation loop on the entries as received\<close>

lemma find_match_same:
  assumes v: "valid_lookups (length results) bn be" and s: "list_all2 same_entry results store"
  shows "find_match bn be store nk em = find_match bn be results nk em"
proof -
  have c: "name_candidate bn store nk em = name_candidate bn results nk em"
    by (rule name_candidate_same [OF v s])
  show ?thesis
  proof (cases "name_candidate bn results nk em")
    case None
    with c show ?thesis by (simp add: find_match_def)
  next
    case (Some enriched)
    show ?thesis
    proof (cases enriched)
      case None
      with Some c show ?thesis by (simp add: find_match_def)
    next
      case (Some j)
      with \<open>name_candidate bn results nk em = Some enriched\<close>
      have "j < length results"
        using name_candidate_valid [OF v] by blast
      then have "same_entry (results ! j) (store ! j)"
        using s by (simp add: list_all2_nthD)
      then have "(store ! j = []) = (results ! j = [])"
        by (rule same_entry_empty)
      with Some \<open>name_candidate bn results nk em = Some enriched\<close> c
      show ?thesis by (simp add: find_match_def)
    qed
  qed
qed

lemma find_match_valid:
  assumes v: "valid_lookups n bn be" and f: "find_match bn be results nk em = Some (Some j)"
  shows "j < n"
proof -
  from f obtain enriched where c: "name_candidate bn results nk em = Some enriched"
    by (auto simp: find_match_def split: option.splits)
  with f have "enriched = Some j \<or> be em = Some j"
    by (auto simp: find_match_def split: if_splits)
  then show ?thesis
    using c name_candidate_valid [OF v] valid_emails [OF v] by blast
qed

lemma find_match_total:
  assumes "valid_lookups (length results) bn be" "\<forall>r\<in>set results. entry_keys r \<noteq> None"
  shows "find_match bn be results nk em \<noteq> None"
  using name_candidate_total [OF assms, of nk em]
  by (auto simp: find_match_def split: option.splits)

lemma usable_same:
  assumes "list_all2 same_entry results store" "\<forall>j. enriched = Some j \<longrightarrow> j < length results"
  shows "usable store enriched = usable results enriched"
proof (cases enriched)
  case None
  then show ?thesis by (simp add: usable_def)
next
  case (Some j)
  with assms have "same_entry (results ! j) (store ! j)"
    by (simp add: list_all2_nthD)
  then have "(store ! j = []) = (results ! j = [])"
    by (rule same_entry_empty)
  with Some show ?thesis by (simp add: usable_def)
qed

lemma usable_valid: "usable results enriched = Some j \<Longrightarrow> enriched = Some j"
  by (auto simp: usable_def split: option.splits if_splits)

lemma reconcile_loop_pure:
  assumes v: "valid_lookups (length results) bn be"
    and ok: "\<forall>r\<in>set results. entry_keys r \<noteq> None"
  shows "list_all2 same_entry results store \<Longrightarrow> \<forall>c\<in>set cs. contact_keys c \<noteq> None \<Longrightarrow>
    reconcile_loop bn be store cs =
      Some (map (\<lambda>c. if chosen_with bn be results c = None then flag_unenriched c else c) cs,
            map (\<lambda>c. case chosen_with bn be results c of
                        Some j \<Rightarrow> merged_record c (from_external (results ! j))
                      | None \<Rightarrow> flag_unenriched c) cs)"
proof (induction cs arbitrary: store)
  case Nil
  then show ?case by simp
next
  case (Cons c cs)
  obtain nk em where k: "contact_keys c = Some (nk, em)"
    using Cons.prems(2) by auto
  obtain enriched where f: "find_match bn be results nk em = Some enriched"
    using find_match_total [OF v ok, of nk em] by auto
  have f': "find_match bn be store nk em = Some enriched"
    using find_match_same [OF v Cons.prems(1)] f by simp
  have val: "\<forall>j. enriched = Some j \<longrightarrow> j < length results"
    using find_match_valid [OF v] f by blast
  have u: "usable store enriched = usable results enriched"
    by (rule usable_same [OF Cons.prems(1) val])
  have ch: "chosen_with bn be results c = usable results enriched"
    by (simp add: chosen_with_def k f)
  have rest: "\<forall>c\<in>set cs. contact_keys c \<noteq> None"
    using Cons.prems(2) by simp
  show ?case
  proof (cases "usable results enriched")
    case None
    have "reconcile_loop bn be store (c # cs) =
        map_option (\<lambda>(cs', out). (flag_unenriched c # cs', flag_unenriched c # out))
          (reconcile_loop bn be store cs)"
      using k f' u None by (simp add: Let_def)
    then show ?thesis
      using Cons.IH [OF Cons.prems(1) rest] ch None by simp
  next
    case (Some j)
    then have j: "j < length results"
      using val usable_valid by blast
    have se: "same_entry (results ! j) (store ! j)"
      using Cons.prems(1) j by (simp add: list_all2_nthD)
    have h: "hoist_company (store ! j) = hoist_company (results ! j)"
      by (rule same_entry_hoist [OF se])
    have st: "list_all2 same_entry results (store[j := hoist_company (results ! j)])"
      using Cons.prems(1) j same_entry_hoisted
      by (simp add: list_all2_conv_all_nth nth_list_update)
    have "reconcile_loop bn be store (c # cs) =
        map_option (\<lambda>(cs', out).
            (c # cs', merged_record c (standardize (hoist_company (results ! j))) # out))
          (reconcile_loop bn be (store[j := hoist_company (results ! j)]) cs)"
      using k f' u Some h by (simp add: Let_def)
    then show ?thesis
      using Cons.IH [OF st rest] ch Some by (simp add: from_external_def)
  qed
qed

lemma reconcile_pure:
  assumes "\<forall>r\<in>set results. entry_keys r \<noteq> None" "\<forall>c\<in>set cs. contact_keys c \<noteq> None"
  shows "reconcile results cs =
      Some (map (\<lambda>c. if chosen_entry results c = None then flag_unenriched c else c) cs,
            map (enrichment_result results) cs)"
proof -
  obtain bn be where l: "lookups results = Some (bn, be)"
    using lookups_total [OF assms(1)] by auto
  have v: "valid_lookups (length results) bn be"
    by (rule lookups_valid [OF l])
  have s: "list_all2 same_entry results results"
    by (simp add: list_all2_refl same_entry_refl)
  have c: "chosen_entry results = chosen_with bn be results"
    by (rule ext) (simp add: chosen_entry_def l)
  show ?thesis
    using reconcile_loop_pure [OF v assms(1) s assms(2)]
    by (simp add: reconcile_def l c enrichment_result_def [abs_def])
qed

section \<open>Claims about the batch requester and the reconciler\<close>

text \<open>
  Claim C1. Every call of \<^verbatim>\<open>enrich_contact_batch\<close> returns a list with one record per input
  contact. When the request is sent and answered with status 200 (the enricher is
  authenticated, some contact has a field to send) and the name and email fields of the
  contacts and of the response entries are strings or falsy, the returned list is, in input
  order, the record of each contact: for a matched contact the merge of its fields with the
  mapped fields of the chosen entry, flagged \<^verbatim>\<open>zi_enriched = True\<close>, and for an unmatched
  contact the contact itself, flagged \<^verbatim>\<open>zi_enriched = False\<close>.
\<close>

theorem enrich_reconciles_in_order:
  "(\<exists>out. snd (snd (enrich_contact_batch py self env contacts)) = Returned out
       \<and> length out = length contacts)
   \<and> (fst (authenticate self env) \<and> (\<exists>c\<in>set contacts. to_external py c \<noteq> [])
       \<and> post_result env = Response 200 results
       \<and> (\<forall>r\<in>set results. entry_keys r \<noteq> None) \<and> (\<forall>c\<in>set contacts. contact_keys c \<noteq> None)
      \<longrightarrow> snd (snd (enrich_contact_batch py self env contacts))
            = Returned (map (enrichment_result results) contacts))"
proof (intro conjI impI)
  show "\<exists>out. snd (snd (enrich_contact_batch py self env contacts)) = Returned out
       \<and> length out = length contacts"
    by (rule enrich_returns)
next
  assume a: "fst (authenticate self env) \<and> (\<exists>c\<in>set contacts. to_external py c \<noteq> [])
       \<and> post_result env = Response 200 results
       \<and> (\<forall>r\<in>set results. entry_keys r \<noteq> None) \<and> (\<forall>c\<in>set contacts. contact_keys c \<noteq> None)"
  then have p: "filter (\<lambda>p. p \<noteq> []) (map (to_external py) contacts) \<noteq> []"
    by (auto simp: filter_empty_conv)
  have r: "reconcile results contacts =
      Some (map (\<lambda>c. if chosen_entry results c = None then flag_unenriched c else c) contacts,
            map (enrichment_result results) contacts)"
    using a by (intro reconcile_pure) auto
  show "snd (snd (enrich_contact_batch py self env contacts))
            = Returned (map (enrichment_result results) contacts)"
    using a p r by (auto simp: enrich_contact_batch_def split: prod.splits)
qed

text \<open>
  The scenario of the specification: two contacts share a name and are told apart by their
  emails; a third contact matches nothing.
\<close>

theorem enrich_reconciles_in_order_witness:
  "fst (authenticate keyed_enricher (answering (Response 200 [entry_cto, entry_vp])))
   \<and> to_external example_runtime jane_x \<noteq> []
   \<and> entry_keys entry_cto \<noteq> None \<and> entry_keys entry_vp \<noteq> None
   \<and> contact_keys jane_x \<noteq> None \<and> contact_keys jane_y \<noteq> None \<and> contact_keys acme_only \<noteq> None
   \<and> snd (snd (enrich_contact_batch example_runtime keyed_enricher
          (answering (Response 200 [entry_cto, entry_vp])) [jane_x, jane_y, acme_only]))
      = Returned
         [jane_x @ [(''job_title'', VStr ''CTO''), (''zi_enriched'', VBool True)],
          jane_y @ [(''job_title'', VStr ''VP''), (''zi_enriched'', VBool True)],
          acme_only @ [(''zi_enriched'', VBool False)]]"
proof -
  have h1: "fst (authenticate keyed_enricher (answering (Response 200 [entry_cto, entry_vp])))"
    by code_simp
  have h2: "to_external example_runtime jane_x \<noteq> []" by code_simp
  have h3: "post_result (answering (Response 200 [entry_cto, entry_vp])) = Response 200 [entry_cto, entry_vp]"
    by (simp add: answering_def)
  have h4: "entry_keys entry_cto \<noteq> None" "entry_keys entry_vp \<noteq> None" by code_simp+
  have h5: "contact_keys jane_x \<noteq> None" "contact_keys jane_y \<noteq> None" "contact_keys acme_only \<noteq> None"
    by code_simp+
  have v: "map (enrichment_result [entry_cto, entry_vp]) [jane_x, jane_y, acme_only]
       = [jane_x @ [(''job_title'', VStr ''CTO''), (''zi_enriched'', VBool True)],
          jane_y @ [(''job_title'', VStr ''VP''), (''zi_enriched'', VBool True)],
          acme_only @ [(''zi_enriched'', VBool False)]]"
    by code_simp
  have "snd (snd (enrich_contact_batch example_runtime keyed_enricher
          (answering (Response 200 [entry_cto, entry_vp])) [jane_x, jane_y, acme_only]))
      = Returned (map (enrichment_result [entry_cto, entry_vp]) [jane_x, jane_y, acme_only])"
    using enrich_reconciles_in_order [of example_runtime keyed_enricher
        "answering (Response 200 [entry_cto, entry_vp])" "[jane_x, jane_y, acme_only]"
        "[entry_cto, entry_vp]"] h1 h2 h3 h4 h5
    by simp
  then show ?thesis using h1 h2 h4 h5 v by simp
qed

text \<open>
  Claim C6, amended. When exactly one response entry shares the normalized name of the
  contact and that entry is not an empty dictionary, the contact is matched to it, whatever
  the emails are. (An empty entry counts as no match: see the counterexample.)
\<close>

theorem unique_name_match_nonempty:
  "(\<forall>r\<in>set results. entry_keys r \<noteq> None) \<and> contact_keys contact = Some (name_key, email)
     \<and> entries_named results name_key = [j] \<and> results ! j \<noteq> []
   \<longrightarrow> chosen_entry results contact = Some j
       \<and> enrichment_result results contact = merged_record contact (from_external (results ! j))"
proof (intro impI)
  assume a: "(\<forall>r\<in>set results. entry_keys r \<noteq> None) \<and> contact_keys contact = Some (name_key, email)
     \<and> entries_named results name_key = [j] \<and> results ! j \<noteq> []"
  then obtain bn be where l: "lookups results = Some (bn, be)"
    using lookups_total by blast
  have "bn name_key = Some [j]"
    using lookups_names [OF l, of name_key] a by simp
  then have "name_candidate bn results name_key email = Some (Some j)"
    by (simp add: name_candidate_def)
  then have "find_match bn be results name_key email = Some (Some j)"
    using a by (simp add: find_match_def)
  then have c: "chosen_entry results contact = Some j"
    using a l by (simp add: chosen_entry_def chosen_with_def usable_def)
  then show "chosen_entry results contact = Some j
       \<and> enrichment_result results contact = merged_record contact (from_external (results ! j))"
    by (simp add: enrichment_result_def)
qed

text \<open>The hypotheses hold for a contact named Jane Doe and the entries of Bob and Jane.\<close>

theorem unique_name_match_nonempty_witness:
  "entry_keys entry_bob \<noteq> None \<and> entry_keys entry_cto \<noteq> None
   \<and> contact_keys jane_y = Some ((''jane'', ''doe''), ''jd@y.com'')
   \<and> entries_named [entry_bob, entry_cto] (''jane'', ''doe'') = [1]
   \<and> [entry_bob, entry_cto] ! 1 \<noteq> []
   \<and> chosen_entry [entry_bob, entry_cto] jane_y = Some 1
   \<and> enrichment_result [entry_bob, entry_cto] jane_y
       = merged_record jane_y (from_external ([entry_bob, entry_cto] ! 1))"
proof -
  have h1: "entry_keys entry_bob \<noteq> None" "entry_keys entry_cto \<noteq> None" by code_simp+
  have h2: "contact_keys jane_y = Some ((''jane'', ''doe''), ''jd@y.com'')" by code_simp
  have h3: "entries_named [entry_bob, entry_cto] (''jane'', ''doe'') = [1]" by code_simp
  have h4: "[entry_bob, entry_cto] ! 1 \<noteq> []" by code_simp
  show ?thesis
    using unique_name_match_nonempty [of "[entry_bob, entry_cto]" jane_y "(''jane'', ''doe'')"
        "''jd@y.com''" 1] h1 h2 h3 h4
    by simp
qed

text \<open>
  Claim C6 as stated fails: the empty entry at position 0 is the only entry with the
  (empty) name of the contact, yet the contact is matched by email to the entry of Bob at
  position 1.
\<close>

theorem unique_name_match_counterexample:
  "entries_named [[], entry_bob] ([], []) = [0]
   \<and> contact_keys [(''email'', VStr ''a@x.com'')] = Some (([], []), ''a@x.com'')
   \<and> chosen_entry [[], entry_bob] [(''email'', VStr ''a@x.com'')] = Some 1
   \<and> snd (snd (enrich_contact_batch example_runtime keyed_enricher
          (answering (Response 200 [[], entry_bob])) [[(''email'', VStr ''a@x.com'')]]))
      = Returned [[(''email'', VStr ''a@x.com''), (''first_name'', VStr ''Bob''),
                   (''zi_enriched'', VBool True)]]"
  by code_simp

text \<open>
  Claim C7, amended. A call of \<^verbatim>\<open>enrich_contact_batch\<close> leaves every input contact as it
  was or as it was with \<^verbatim>\<open>zi_enriched\<close> set to false: no other field of an input record
  changes, on any path.
\<close>

theorem enrich_changes_only_flag:
  "list_all2 flag_only contacts (fst (snd (enrich_contact_batch py self env contacts)))"
  by (rule enrich_flag_only)

text \<open>
  Claim C7 as stated fails: after a non-success status, after a status 200 without a match
  and after a transport failure the input contact carries a new \<^verbatim>\<open>zi_enriched\<close> field.
\<close>

theorem enrich_mutates_counterexample:
  "fst (snd (enrich_contact_batch example_runtime keyed_enricher
        (answering (Response 500 [])) [jane_x]))
     = [jane_x @ [(''zi_enriched'', VBool False)]]
   \<and> fst (snd (enrich_contact_batch example_runtime keyed_enricher
        (answering (Response 500 [])) [jane_x])) \<noteq> [jane_x]
   \<and> fst (snd (enrich_contact_batch example_runtime keyed_enricher
        (answering (Response 200 [entry_bob])) [jane_x])) \<noteq> [jane_x]
   \<and> fst (snd (enrich_contact_batch example_runtime keyed_enricher
        (answering Call_raises) [jane_x])) \<noteq> [jane_x]"
  by code_simp

text \<open>
  Claim C4, amended. \<^verbatim>\<open>enrich_contact_batch\<close> never raises. After a non-success status or
  a transport failure of a request that was sent, it returns normally the input contacts,
  each flagged \<^verbatim>\<open>zi_enriched = False\<close>.
\<close>

theorem request_failure_returns_flagged:
  "(\<forall>msg. snd (snd (enrich_contact_batch py self env contacts)) \<noteq> Raised msg)
   \<and> (fst (authenticate self env) \<and> (\<exists>c\<in>set contacts. to_external py c \<noteq> [])
       \<and> (post_result env = Call_raises
            \<or> (\<exists>status results. post_result env = Response status results \<and> status \<noteq> 200))
      \<longrightarrow> enrich_contact_batch py self env contacts
            = (snd (authenticate self env), map flag_unenriched contacts,
               Returned (map flag_unenriched contacts)))"
proof (intro conjI impI allI)
  fix msg
  show "snd (snd (enrich_contact_batch py self env contacts)) \<noteq> Raised msg"
    using enrich_returns [of py self env contacts] by auto
next
  assume "fst (authenticate self env) \<and> (\<exists>c\<in>set contacts. to_external py c \<noteq> [])
       \<and> (post_result env = Call_raises
            \<or> (\<exists>status results. post_result env = Response status results \<and> status \<noteq> 200))"
  then show "enrich_contact_batch py self env contacts
            = (snd (authenticate self env), map flag_unenriched contacts,
               Returned (map flag_unenriched contacts))"
    by (intro enrich_request_failure) auto
qed

text \<open>The hypotheses hold for an enricher with an API key and the answer 500.\<close>

theorem request_failure_returns_flagged_witness:
  "fst (authenticate keyed_enricher (answering (Response 500 [])))
   \<and> to_external example_runtime jane_x \<noteq> []
   \<and> post_result (answering (Response 500 [])) = Response 500 []
   \<and> enrich_contact_batch example_runtime keyed_enricher (answering (Response 500 [])) [jane_x]
       = (snd (authenticate keyed_enricher (answering (Response 500 []))),
          [flag_unenriched jane_x], Returned [flag_unenriched jane_x])"
proof -
  have h1: "fst (authenticate keyed_enricher (answering (Response 500 [])))" by code_simp
  have h2: "to_external example_runtime jane_x \<noteq> []" by code_simp
  have h3: "post_result (answering (Response 500 [])) = Response 500 []"
    by (simp add: answering_def)
  show ?thesis
    using request_failure_returns_flagged [of example_runtime keyed_enricher
        "answering (Response 500 [])" "[jane_x]"] h1 h2 h3
    by simp
qed

text \<open>
  Claim C4 as stated fails: after status 500 and after a transport failure the caller gets
  an ordinary list of records and no failure.
\<close>

theorem request_failure_counterexample:
  "snd (snd (enrich_contact_batch example_runtime keyed_enricher
        (answering (Response 500 [])) [jane_x]))
     = Returned [jane_x @ [(''zi_enriched'', VBool False)]]
   \<and> snd (snd (enrich_contact_batch example_runtime keyed_enricher
        (answering Call_raises) [jane_x]))
     = Returned [jane_x @ [(''zi_enriched'', VBool False)]]"
  by code_simp

section \<open>Claims about the field mapper\<close>

lemma snake_keys:
  "snake_key ''firstName'' = ''first_name''"
  "snake_key ''lastName'' = ''last_name''"
  "snake_key ''email'' = ''email''"
  "snake_key ''jobTitle'' = ''job_title''"
  by code_simp+

lemma put_map_of:
  "map_of (put_if_present c lk ek f p) k =
     (if k = ek then (case map_of c lk of Some v \<Rightarrow> Some (f v) | None \<Rightarrow> map_of p k)
      else map_of p k)"
  by (simp add: put_if_present_def update_conv' split: option.splits)

lemma put_distinct: "distinct (map fst p) \<Longrightarrow> distinct (map fst (put_if_present c lk ek f p))"
  by (simp add: put_if_present_def distinct_update split: option.splits)

lemma to_external_distinct: "distinct (map fst (to_external py r))"
  by (simp add: to_external_def put_distinct)

lemma to_external_map_of:
  "map_of (to_external py r) ''firstName'' = map_of r ''first_name''"
  "map_of (to_external py r) ''lastName'' = map_of r ''last_name''"
  "map_of (to_external py r) ''email'' = map_of r ''email''"
  by (simp_all add: to_external_def put_map_of split: option.splits)

lemma to_external_keys:
  "map_of (to_external py r) k \<noteq> None \<Longrightarrow>
   k \<in> {''firstName'', ''lastName'', ''email'', ''jobTitle'', ''companyName'', ''companyDomain''}"
  by (simp add: to_external_def put_map_of split: if_splits)

lemma hoist_loop_distinct:
  "distinct (map fst e) \<Longrightarrow> distinct (map fst (snd (hoist_loop ks (info, e))))"
  by (induction ks arbitrary: info e) (auto simp: distinct_delete split: option.splits)

lemma hoist_company_distinct:
  "distinct (map fst e) \<Longrightarrow> distinct (map fst (hoist_company e))"
  using hoist_loop_distinct [of e company_keys "[]"]
  by (auto simp: hoist_company_def distinct_update split: prod.splits)

lemma standardize_map_of:
  assumes "distinct (map fst e)"
    and "(if k0 \<noteq> ''company'' then snake_key k0 else k0) = k"
    and "\<forall>key\<in>fst ` set e. (if key \<noteq> ''company'' then snake_key key else key) = k \<longrightarrow> key = k0"
  shows "map_of (foldl (\<lambda>standardized (key, value).
              if key \<noteq> ''company'' then AList.update (snake_key key) value standardized
              else AList.update key value standardized) acc e) k
       = (case map_of e k0 of Some v \<Rightarrow> Some v | None \<Rightarrow> map_of acc k)"
  using assms
proof (induction e arbitrary: acc)
  case Nil
  then show ?case by simp
next
  case (Cons p e)
  obtain key v where p: "p = (key, v)" by (cases p)
  have d: "distinct (map fst e)" and notin: "key \<notin> fst ` set e"
    using Cons.prems(1) p by auto
  have rest: "\<forall>key\<in>fst ` set e. (if key \<noteq> ''company'' then snake_key key else key) = k \<longrightarrow> key = k0"
    using Cons.prems(3) by simp
  note IH = Cons.IH [OF d Cons.prems(2) rest]
  show ?case
  proof (cases "key = k0")
    case True
    then have "map_of e k0 = None"
      using notin by (simp add: map_of_eq_None_iff)
    then show ?thesis
      using IH p True Cons.prems(2) by (auto simp: update_conv' split: option.splits)
  next
    case False
    then have "(if key \<noteq> ''company'' then snake_key key else key) \<noteq> k"
      using Cons.prems(3) p by auto
    then show ?thesis
      using IH p False by (auto simp: update_conv' split: option.splits)
  qed
qed


lemma hoist_company_gone:
  "k \<in> set company_keys \<Longrightarrow> map_of (hoist_company e) k = None"
proof -
  assume k: "k \<in> set company_keys"
  obtain info e' where l: "hoist_loop company_keys ([], e) = (info, e')"
    by (cases "hoist_loop company_keys ([], e)") auto
  have "map_of e' k = None"
    using hoist_loop_map_of [of company_keys "[]" e k] l k by simp
  moreover have "k \<noteq> ''company''"
    using k company_not_company_key by auto
  ultimately show ?thesis
    by (simp add: hoist_company_def l update_conv')
qed

lemma hoisted_payload_keys:
  assumes "key \<in> fst ` set (hoist_company (to_external py r))"
  shows "key \<in> {''firstName'', ''lastName'', ''email'', ''jobTitle'', ''company''}"
proof -
  have present: "map_of (hoist_company (to_external py r)) key \<noteq> None"
    using assms by (simp add: map_of_eq_None_iff)
  show ?thesis
  proof (cases "key \<in> set company_keys \<or> key = ''company''")
    case True
    then show ?thesis
      using present hoist_company_gone [of key] by auto
  next
    case False
    then have "map_of (to_external py r) key \<noteq> None"
      using present hoist_company_map_of [of key] by simp
    then show ?thesis
      using to_external_keys [of py r key] False by (auto simp: company_keys_def)
  qed
qed

lemma round_trip_field:
  assumes "snake_key k0 = k" "k0 \<noteq> ''company''" "k0 \<notin> set company_keys"
    and "\<forall>key\<in>{''firstName'', ''lastName'', ''email'', ''jobTitle'', ''company''}.
           (if key \<noteq> ''company'' then snake_key key else key) = k \<longrightarrow> key = k0"
  shows "map_of (from_external (to_external py r)) k = map_of (to_external py r) k0"
proof -
  let ?h = "hoist_company (to_external py r)"
  have d: "distinct (map fst ?h)"
    by (rule hoist_company_distinct [OF to_external_distinct])
  have u: "\<forall>key\<in>fst ` set ?h. (if key \<noteq> ''company'' then snake_key key else key) = k \<longrightarrow> key = k0"
    using assms(4) hoisted_payload_keys by blast
  have r: "(if k0 \<noteq> ''company'' then snake_key k0 else k0) = k"
    using assms(1,2) by simp
  have "map_of (standardize ?h) k = (case map_of ?h k0 of Some v \<Rightarrow> Some v | None \<Rightarrow> None)"
    unfolding standardize_def using standardize_map_of [OF d r u, of "[]"]
    by (simp split: option.splits)
  also have "\<dots> = map_of ?h k0" by (simp split: option.splits)
  also have "\<dots> = map_of (to_external py r) k0"
    by (rule hoist_company_map_of [OF assms(3,2)])
  finally show ?thesis by (simp add: from_external_def)
qed

text \<open>
  Claim C2, amended. For every contact record the round trip through the field mapper
  restores the fields \<^verbatim>\<open>first_name\<close>, \<^verbatim>\<open>last_name\<close> and \<^verbatim>\<open>email\<close> under their original keys
  with their original values (and leaves them absent when they were absent).
\<close>

theorem round_trip_restores_name_and_email:
  "map_of (from_external (to_external py r)) ''first_name'' = map_of r ''first_name''
   \<and> map_of (from_external (to_external py r)) ''last_name'' = map_of r ''last_name''
   \<and> map_of (from_external (to_external py r)) ''email'' = map_of r ''email''"
proof -
  have "map_of (from_external (to_external py r)) ''first_name'' = map_of (to_external py r) ''firstName''"
    by (rule round_trip_field) (simp_all add: snake_keys company_keys_def)
  moreover have "map_of (from_external (to_external py r)) ''last_name'' = map_of (to_external py r) ''lastName''"
    by (rule round_trip_field) (simp_all add: snake_keys company_keys_def)
  moreover have "map_of (from_external (to_external py r)) ''email'' = map_of (to_external py r) ''email''"
    by (rule round_trip_field) (simp_all add: snake_keys company_keys_def)
  ultimately show ?thesis by (simp add: to_external_map_of)
qed

text \<open>
  Claim C2 as stated fails: the record has no company field, yet its \<^verbatim>\<open>title\<close> comes back
  under the key \<^verbatim>\<open>job_title\<close> and its \<^verbatim>\<open>phone\<close>, which the payload never carries, is gone.
\<close>

theorem round_trip_counterexample:
  "from_external (to_external example_runtime
       [(''first_name'', VStr ''Jane''), (''title'', VStr ''CTO''), (''phone'', VStr ''555'')])
     = [(''first_name'', VStr ''Jane''), (''job_title'', VStr ''CTO'')]
   \<and> map_of (from_external (to_external example_runtime
       [(''first_name'', VStr ''Jane''), (''title'', VStr ''CTO''), (''phone'', VStr ''555'')])) ''title''
       \<noteq> Some (VStr ''CTO'')
   \<and> map_of (from_external (to_external example_runtime
       [(''first_name'', VStr ''Jane''), (''title'', VStr ''CTO''), (''phone'', VStr ''555'')])) ''phone''
       \<noteq> Some (VStr ''555'')"
  by code_simp

section \<open>The retry loop of a batch\<close>









section \<open>Claims about the orchestrators\<close>


subsection \<open>A record without a name, an email and a phone in \<^verbatim>\<open>process_file\<close>\<close>

text \<open>
  The batch holds a contact with a name and an email and a contact with a company name
  only; every call is answered with status 200 and no results.
\<close>

lemma first_attempt:
  "attempt_batch example_runtime always_no_match (fresh_state keyed_enricher) [jane_x, acme_only]
     = (\<lparr>enr = keyed_enricher_used, calls = 1, processed_contacts = [jane_row], errors = []\<rparr>,
        map flag_unenriched [jane_x, acme_only], Some no_identity_message)"
  by code_simp

lemma later_call:
  "enrich_contact_batch example_runtime keyed_enricher_used (answering (Response 200 []))
       (map flag_unenriched [jane_x, acme_only])
     = (keyed_enricher_used, map flag_unenriched [jane_x, acme_only],
        Returned (map flag_unenriched [jane_x, acme_only]))"
  by code_simp

lemma later_rows:
  "extract_all example_runtime
      (zip (map flag_unenriched [jane_x, acme_only]) (map flag_unenriched [jane_x, acme_only])) p
     = (p @ [jane_row], Some no_identity_message)"
proof -
  have 1: "extract_row example_runtime (flag_unenriched jane_x) = Returned jane_row"
    by code_simp
  have 2: "extract_row example_runtime (flag_unenriched acme_only) = Raised no_identity_message"
    by code_simp
  show ?thesis by (simp add: 1 2)
qed

lemma later_attempt:
  "attempt_batch example_runtime always_no_match
       \<lparr>enr = keyed_enricher_used, calls = c, processed_contacts = p, errors = e\<rparr>
       (map flag_unenriched [jane_x, acme_only])
     = (\<lparr>enr = keyed_enricher_used, calls = Suc c, processed_contacts = p @ [jane_row], errors = e\<rparr>,
        map flag_unenriched [jane_x, acme_only], Some no_identity_message)"
  unfolding attempt_batch_def
  by (simp add: always_no_match_def later_call later_rows del: list.map zip_Cons_Cons)

lemma later_attempts:
  "batch_attempts example_runtime always_no_match n
       \<lparr>enr = keyed_enricher_used, calls = c, processed_contacts = p, errors = e\<rparr>
       (map flag_unenriched [jane_x, acme_only])
     = (\<lparr>enr = keyed_enricher_used, calls = c + Suc n,
         processed_contacts = p @ replicate (Suc n) jane_row,
         errors = e @ map (\<lambda>contact. (contact, batch_error no_identity_message))
                        (map flag_unenriched [jane_x, acme_only])\<rparr>,
        map flag_unenriched [jane_x, acme_only])"
proof (induction n arbitrary: c p)
  case 0
  show ?case by (simp add: later_attempt del: list.map)
next
  case (Suc n)
  show ?case
    by (simp add: later_attempt Suc.IH del: list.map replicate.simps)
       (simp add: replicate_app_Cons_same)
qed

lemma one_chunk: "chunks 10 [jane_x, acme_only] = [[jane_x, acme_only]]"
  by code_simp

text \<open>
  Claim C10. In \<^verbatim>\<open>process_file\<close> the success rows are kept across the attempts on a
  batch: the row of the first contact is appended once per attempt, so with \<open>retries\<close>
  retries the success sequence holds it \<open>retries + 1\<close> times (more than once as soon as
  there is a retry), while both contacts end in the error rows.
\<close>

theorem accumulator_persists_across_attempts:
  "process_file example_runtime 10 retries always_no_match keyed_enricher [jane_x, acme_only]
     = (replicate (Suc retries) jane_row,
        map error_row
          [(flag_unenriched jane_x, batch_error no_identity_message),
           (flag_unenriched acme_only, batch_error no_identity_message)])"
proof -
  have b: "fst (batch_attempts example_runtime always_no_match retries
              (fresh_state keyed_enricher) [jane_x, acme_only])
       = \<lparr>enr = keyed_enricher_used, calls = Suc retries,
          processed_contacts = replicate (Suc retries) jane_row,
          errors = map (\<lambda>contact. (contact, batch_error no_identity_message))
                     (map flag_unenriched [jane_x, acme_only])\<rparr>"
  proof (cases retries)
    case 0
    then show ?thesis by (simp add: first_attempt del: list.map)
  next
    case (Suc n)
    then show ?thesis
      by (simp add: first_attempt later_attempts del: list.map)
  qed
  have fs: "\<lparr>enr = keyed_enricher, calls = 0, processed_contacts = [], errors = []\<rparr>
      = fresh_state keyed_enricher"
    by (simp add: fresh_state_def)
  show ?thesis
    unfolding process_file_def
    by (simp add: one_chunk fs b Let_def del: replicate.simps)
qed

text \<open>
  Claim C5 at this input, with two retries. \<^verbatim>\<open>process_file\<close> retries the whole batch for the
  record without a name, an email and a phone: the row of its sibling appears three times
  and both contacts become error rows. \<^verbatim>\<open>process_contact_list\<close>, on the same input, does
  what the claim says: one call, the sibling once among the successes, the record alone among
  the errors.
\<close>

theorem record_failure_retries_batch:
  "process_file example_runtime 10 2 always_no_match keyed_enricher [jane_x, acme_only]
     = ([jane_row, jane_row, jane_row],
        [flag_unenriched jane_x @ [(''error'', VStr (batch_error no_identity_message))],
         flag_unenriched acme_only @ [(''error'', VStr (batch_error no_identity_message))]])
   \<and> process_contact_list example_runtime True 10 always_no_match
        (fresh_state keyed_enricher) [jane_x, acme_only]
     = Some \<lparr>enr = keyed_enricher_used, calls = 1, processed_contacts = [jane_row],
             errors = [(flag_unenriched acme_only, no_identity_message)]\<rparr>"
  by code_simp

subsection \<open>A run without credentials\<close>








section \<open>Properties of the company-size criterion\<close>

lemma digit_val_char_of: "(d::nat) < 10 \<Longrightarrow> digit_val (char_of (48 + d)) = d"
  by (simp add: digit_val_def)

lemma is_digit_char_of: "(d::nat) < 10 \<Longrightarrow> is_digit (char_of (48 + d))"
  by (simp add: is_digit_def)

lemma not_space_digit: "is_digit c \<Longrightarrow> \<not> is_space c"
  by (auto simp: is_digit_def is_space_def Let_def)

lemma str_nat_digits: "\<forall>c\<in>set (str_nat n). is_digit c"
  by (induction n rule: str_nat.induct) (subst str_nat.simps, auto simp: is_digit_char_of)

lemma str_nat_nonempty: "str_nat n \<noteq> []"
  by (subst str_nat.simps) simp

lemma digits_from_all:
  "\<forall>c\<in>set ds. is_digit c \<Longrightarrow>
   digits_from acc ds = Some (foldl (\<lambda>a c. 10 * a + digit_val c) acc ds)"
  by (induction acc ds rule: digits_from.induct) auto

lemma foldl_str_nat: "foldl (\<lambda>a c. 10 * a + digit_val c) 0 (str_nat n) = n"
proof (induction n rule: str_nat.induct)
  case (1 n)
  show ?case
  proof (cases "n < 10")
    case True
    then show ?thesis by (subst str_nat.simps) (simp add: digit_val_char_of)
  next
    case False
    then have "foldl (\<lambda>a c. 10 * a + digit_val c) 0 (str_nat n)
        = 10 * (n div 10) + digit_val (char_of (48 + n mod 10))"
      using 1 by (subst str_nat.simps) simp
    then show ?thesis by (simp add: digit_val_char_of)
  qed
qed

lemma py_digits_str_nat: "py_digits (str_nat n) = Some n"
proof -
  obtain c cs where eq: "str_nat n = c # cs"
    using str_nat_nonempty by (cases "str_nat n") auto
  have dig: "\<forall>x\<in>set (c # cs). is_digit x"
    using str_nat_digits [of n] eq by simp
  have "py_digits (c # cs) = Some (foldl (\<lambda>a c. 10 * a + digit_val c) 0 (c # cs))"
    using dig by (simp add: py_digits_def digits_from_all)
  then show ?thesis using foldl_str_nat [of n] eq by simp
qed

lemma py_strip_no_space: "\<forall>c\<in>set s. \<not> is_space c \<Longrightarrow> py_strip s = s"
proof -
  assume a: "\<forall>c\<in>set s. \<not> is_space c"
  have d: "dropWhile is_space xs = xs" if "\<forall>c\<in>set xs. \<not> is_space c" for xs
    using that by (cases xs) auto
  have "dropWhile is_space (rev s) = rev s"
    by (rule d) (use a in simp)
  then show ?thesis by (simp add: py_strip_def d [OF a])
qed

lemma py_int_str_nat: "py_int (py_strip (str_nat n)) = Some (int n)"
proof -
  have ns: "\<forall>c\<in>set (str_nat n). \<not> is_space c"
    using str_nat_digits not_space_digit by blast
  have st: "py_strip (str_nat n) = str_nat n"
    by (rule py_strip_no_space [OF ns])
  obtain c cs where eq: "str_nat n = c # cs"
    using str_nat_nonempty by (cases "str_nat n") auto
  have "is_digit c" using str_nat_digits [of n] eq by simp
  then have "c \<noteq> CHR ''+''" "c \<noteq> CHR ''-''" by (auto simp: is_digit_def)
  then have "py_int (str_nat n) = Some (int n)"
    unfolding py_int_def st using py_digits_str_nat [of n] by (simp add: eq)
  then show ?thesis by (simp only: st)
qed

lemma remove_char_absent: "c \<notin> set s \<Longrightarrow> remove_char c s = s"
  by (induction s) (auto simp: remove_char_def)

lemma parse_company_size_unified:
  "parse_company_size s =
     py_int (py_strip (remove_char CHR ''+'' (remove_char CHR '','' (before_hyphen s))))"
proof (cases "CHR ''-'' \<in> set s")
  case True
  then show ?thesis by (simp add: parse_company_size_def)
next
  case False
  then have bh: "before_hyphen s = s"
    by (auto simp: before_hyphen_def)
  show ?thesis
  proof (cases "CHR ''+'' \<in> set s")
    case True
    with False bh show ?thesis by (simp add: parse_company_size_def)
  next
    case False
    then have "CHR ''+'' \<notin> set (remove_char CHR '','' s)"
      by (simp add: remove_char_def)
    then have "remove_char CHR ''+'' (remove_char CHR '','' s) = remove_char CHR '','' s"
      by (rule remove_char_absent)
    with False \<open>CHR ''-'' \<notin> set s\<close> bh show ?thesis
      by (simp add: parse_company_size_def)
  qed
qed

lemma parse_lower_bound:
  assumes "CHR ''-'' \<notin> set lo"
    and "remove_char CHR ''+'' (remove_char CHR '','' lo) = str_nat n"
  shows "parse_company_size lo = Some (int n)"
    and "parse_company_size (lo @ CHR ''-'' # hi) = Some (int n)"
proof -
  have b1: "before_hyphen lo = lo"
    using assms(1) by (auto simp: before_hyphen_def)
  have b2: "before_hyphen (lo @ CHR ''-'' # hi) = lo"
    using assms(1) by (induction lo) (auto simp: before_hyphen_def)
  show "parse_company_size lo = Some (int n)"
    unfolding parse_company_size_unified b1 assms(2) by (rule py_int_str_nat)
  show "parse_company_size (lo @ CHR ''-'' # hi) = Some (int n)"
    unfolding parse_company_size_unified b2 assms(2) by (rule py_int_str_nat)
qed

text \<open>
  Claim C9. For a record whose company size is a non-empty string the block adds 1 to
  \<^verbatim>\<open>max_score\<close>; it adds 1 to \<^verbatim>\<open>score\<close> exactly when the string parses and the parsed
  number lies in the configured range, and records a reason in every case. A string without
  a hyphen that is the decimal numeral of \<open>n\<close> once commas and plus signs are removed
  (a plain integer, a comma-grouped integer, either with a trailing plus) parses to \<open>n\<close>, and
  so does that string followed by a hyphen and any upper bound.
\<close>

theorem company_size_scoring:
  "(company_size_str c = VStr s \<and> s \<noteq> [] \<longrightarrow>
      company_size_step py q c (score, max_score, reasons) =
        Some (case parse_company_size s of
                Some n \<Rightarrow>
                  if min_company_size q \<le> n \<and> n \<le> max_company_size q
                  then (score + 1, max_score + 1, reasons @ [reason_within n])
                  else (score, max_score + 1, reasons @ [reason_outside n])
              | None \<Rightarrow> (score, max_score + 1, reasons @ [reason_unknown py (VStr s)])))
   \<and> (CHR ''-'' \<notin> set lo \<and> remove_char CHR ''+'' (remove_char CHR '','' lo) = str_nat n \<longrightarrow>
      parse_company_size lo = Some (int n) \<and>
      parse_company_size (lo @ CHR ''-'' # hi) = Some (int n))"
proof (intro conjI impI)
  assume a: "company_size_str c = VStr s \<and> s \<noteq> []"
  then show "company_size_step py q c (score, max_score, reasons) =
        Some (case parse_company_size s of
                Some n \<Rightarrow>
                  if min_company_size q \<le> n \<and> n \<le> max_company_size q
                  then (score + 1, max_score + 1, reasons @ [reason_within n])
                  else (score, max_score + 1, reasons @ [reason_outside n])
              | None \<Rightarrow> (score, max_score + 1, reasons @ [reason_unknown py (VStr s)]))"
    by (simp add: company_size_step_def split: option.splits)
next
  assume "CHR ''-'' \<notin> set lo \<and> remove_char CHR ''+'' (remove_char CHR '','' lo) = str_nat n"
  then show "parse_company_size lo = Some (int n)"
    using parse_lower_bound(1) by blast
next
  assume "CHR ''-'' \<notin> set lo \<and> remove_char CHR ''+'' (remove_char CHR '','' lo) = str_nat n"
  then show "parse_company_size (lo @ CHR ''-'' # hi) = Some (int n)"
    using parse_lower_bound(2) by blast
qed

text \<open>
  The scenario of the specification: with the range 50 to 1000 the size \<^verbatim>\<open>1,200+\<close> parses
  to 1200, scores nothing and records the out-of-range reason; an unparsable size counts
  toward \<^verbatim>\<open>max_score\<close> only.
\<close>

theorem company_size_scoring_witness:
  "company_size_str [(''company_size'', VStr ''1,200+'')] = VStr ''1,200+''
   \<and> parse_company_size ''1,200+'' = Some 1200
   \<and> parse_company_size ''1,200+-5,000'' = Some 1200
   \<and> company_size_step example_runtime default_qualifier [(''company_size'', VStr ''1,200+'')] (0, 0, [])
       = Some (0, 1, [''Company size (1200) is outside target range''])
   \<and> parse_company_size ''about 50'' = None
   \<and> company_size_step example_runtime default_qualifier [(''company_size'', VStr ''about 50'')] (0, 0, [])
       = Some (0, 1, [''Could not determine company size from '' @ [CHR 0x27] @ ''about 50'' @ [CHR 0x27]])"
proof -
  have src: "company_size_str [(''company_size'', VStr ''1,200+'')] = VStr ''1,200+''"
    by code_simp
  have src2: "company_size_str [(''company_size'', VStr ''about 50'')] = VStr ''about 50''"
    by code_simp
  have nohy: "CHR ''-'' \<notin> set ''1,200+''" by simp
  have dig: "remove_char CHR ''+'' (remove_char CHR '','' ''1,200+'') = str_nat 1200"
    by code_simp
  have out: "reason_outside 1200 = ''Company size (1200) is outside target range''"
    by code_simp
  have unp: "parse_company_size ''about 50'' = None" by code_simp
  note t1 = company_size_scoring [of "[(''company_size'', VStr ''1,200+'')]" "''1,200+''" example_runtime
      default_qualifier 0 0 "[]" "''1,200+''" 1200 "''5,000''"]
  note t2 = company_size_scoring [of "[(''company_size'', VStr ''about 50'')]" "''about 50''" example_runtime
      default_qualifier 0 0 "[]" "''1,200+''" 1200 "''5,000''"]
  have p: "parse_company_size ''1,200+'' = Some 1200"
    and p2: "parse_company_size ''1,200+-5,000'' = Some 1200"
    using t1 nohy dig by simp_all
  have s1: "company_size_step example_runtime default_qualifier [(''company_size'', VStr ''1,200+'')] (0, 0, [])
       = Some (0, 1, [''Company size (1200) is outside target range''])"
    using t1 src p out by (simp add: default_qualifier_def)
  have s2: "company_size_step example_runtime default_qualifier [(''company_size'', VStr ''about 50'')] (0, 0, [])
       = Some (0, 1, [''Could not determine company size from '' @ [CHR 0x27] @ ''about 50'' @ [CHR 0x27]])"
    using t2 src2 unp by (simp add: default_qualifier_def reason_unknown_def)
  show ?thesis using src p p2 s1 unp s2 by blast
qed

end
